theory Spec2Isabelle
  imports Complex_Main "HOL-Library.Word"
begin

section \<open>Values shared by the server (route.ts) and the client (page.tsx)\<close>

text \<open>
  A JavaScript string is a sequence of UTF-16 code units. String literals of the source
  are written with \<open>str\<close>.
\<close>

type_synonym jschar = "16 word"
type_synonym jsstring = "jschar list"

definition str :: "string \<Rightarrow> jsstring" where
  "str s = map of_char s"

text \<open>
  A JavaScript number as the route handlers use it: \<open>NaN\<close> or a finite value. Finite
  values are kept exact (a rational); the rounding of IEEE doubles and the infinities are
  not modelled. On integers below \<open>2^53\<close> the two agree.
\<close>

datatype number = NaN | Num rat

fun js_lt :: "number \<Rightarrow> number \<Rightarrow> bool" where
  "js_lt (Num a) (Num b) = (a < b)"
| "js_lt _ _ = False"

fun Math_min :: "number \<Rightarrow> number \<Rightarrow> number" where
  "Math_min (Num a) (Num b) = Num (min a b)"
| "Math_min _ _ = NaN"

fun js_add :: "number \<Rightarrow> number \<Rightarrow> number" where
  "js_add (Num a) (Num b) = Num (a + b)"
| "js_add _ _ = NaN"

fun js_sub :: "number \<Rightarrow> number \<Rightarrow> number" where
  "js_sub (Num a) (Num b) = Num (a - b)"
| "js_sub _ _ = NaN"

fun js_mul :: "number \<Rightarrow> number \<Rightarrow> number" where
  "js_mul (Num a) (Num b) = Num (a * b)"
| "js_mul _ _ = NaN"

text \<open>
  Division: \<open>0 / 0\<close> is \<open>NaN\<close>. A nonzero value divided by zero is an infinity in
  JavaScript; the handlers divide by the literal 5 and, inside a loop guarded by
  \<open>elapsed < duration\<close> with \<open>elapsed \<ge> 0\<close>, by \<open>duration\<close>, so that case is not reached
  and is mapped to \<open>NaN\<close> here.
\<close>

fun js_div :: "number \<Rightarrow> number \<Rightarrow> number" where
  "js_div (Num a) (Num b) = (if b = 0 then NaN else Num (a / b))"
| "js_div _ _ = NaN"

text \<open>\<open>Math.round\<close> rounds to the nearest integer, halves towards \<open>+\<infinity>\<close>.\<close>

fun Math_round :: "number \<Rightarrow> number" where
  "Math_round (Num a) = Num (of_int \<lfloor>a + 1 / 2\<rfloor>)"
| "Math_round NaN = NaN"

text \<open>Decimal digits of a natural number, most significant first.\<close>

fun digits :: "nat \<Rightarrow> jsstring" where
  "digits n = (if n < 10 then [of_nat (48 + n)]
               else digits (n div 10) @ [of_nat (48 + n mod 10)])"

declare digits.simps [simp del]

text \<open>
  \<open>Number.prototype.toString\<close> as the template literals apply it to \<open>duration\<close>, which
  is \<open>NaN\<close> or an integer (the result of \<open>parseInt\<close>). Integers are printed in decimal;
  the exponent notation JavaScript switches to from \<open>10^21\<close> on is not modelled, and of a
  value that is not an integer only the integral part is printed.
\<close>

fun Number_toString :: "number \<Rightarrow> jsstring" where
  "Number_toString NaN = str ''NaN''"
| "Number_toString (Num a) =
     (if a < 0 then str ''-'' @ digits (nat \<lfloor>- a\<rfloor>) else digits (nat \<lfloor>a\<rfloor>))"

text \<open>
  JSON values, as \<open>JSON.parse\<close> returns them and as \<open>JSON.stringify\<close> writes them. An
  object keeps its members in source order; a later member of the same name overrides an
  earlier one when it is read.
\<close>

datatype json =
    JNull
  | JBool bool
  | JNum rat
  | JStr jsstring
  | JArr "json list"
  | JObj "(jsstring \<times> json) list"

text \<open>\<open>JSON.stringify\<close> writes \<open>NaN\<close> as \<open>null\<close>.\<close>

fun json_of_number :: "number \<Rightarrow> json" where
  "json_of_number NaN = JNull"
| "json_of_number (Num a) = JNum a"

text \<open>
  Reading a property \<open>v.k\<close>, for the names the client reads (\<open>type\<close>, \<open>status\<close>,
  \<open>progress\<close>, none of which a prototype defines): of \<open>null\<close> it throws a \<open>TypeError\<close>
  (the outer \<open>None\<close>); of an object without that member, and of every other value, it is
  \<open>undefined\<close> (the inner \<open>None\<close>).
\<close>

fun lookup_last :: "jsstring \<Rightarrow> (jsstring \<times> json) list \<Rightarrow> json option" where
  "lookup_last k [] = None"
| "lookup_last k ((k', v) # kvs) =
     (case lookup_last k kvs of
        Some w \<Rightarrow> Some w
      | None \<Rightarrow> if k' = k then Some v else None)"

fun get_prop :: "json \<Rightarrow> jsstring \<Rightarrow> json option option" where
  "get_prop JNull k = None"
| "get_prop (JObj kvs) k = Some (lookup_last k kvs)"
| "get_prop _ k = Some None"

section \<open>The response stream of a route handler\<close>

text \<open>
  A \<open>ReadableStreamDefaultController\<close>: the state of its stream and the chunks enqueued so
  far. Each chunk is one unit, kept as the JSON value whose text the handler writes.
  \<open>enqueue\<close> and \<open>close\<close> throw a \<open>TypeError\<close> (\<open>None\<close>) unless the stream is readable;
  \<open>error\<close> does nothing unless the stream is readable.
\<close>

datatype stream_state = Readable | Closed | Errored

record controller =
  sstate :: stream_state
  chunks :: "json list"

definition new_controller :: controller where
  "new_controller = \<lparr>sstate = Readable, chunks = []\<rparr>"

definition enqueue :: "json \<Rightarrow> controller \<Rightarrow> controller option" where
  "enqueue u c = (if sstate c = Readable then Some (c\<lparr>chunks := chunks c @ [u]\<rparr>) else None)"

definition close :: "controller \<Rightarrow> controller option" where
  "close c = (if sstate c = Readable then Some (c\<lparr>sstate := Closed\<rparr>) else None)"

definition controller_error :: "controller \<Rightarrow> controller" where
  "controller_error c = (if sstate c = Readable then c\<lparr>sstate := Errored\<rparr> else c)"

text \<open>The consumer of the stream goes away: the stream is cancelled, which closes it.\<close>

definition peer_cancel :: "controller \<Rightarrow> controller" where
  "peer_cancel c = (if sstate c = Readable then c\<lparr>sstate := Closed\<rparr> else c)"

text \<open>
  What happens while the handler waits in its \<open>k\<close>-th \<open>setTimeoutPromise\<close>: the promise
  resolves, or the request's signal fires and it rejects with an \<open>AbortError\<close>, or it
  rejects with another error; and the consumer may have gone away meanwhile.
\<close>

datatype delay_outcome = Resolved | Aborted | Failed

text \<open>
  What happens while the heartbeat handler waits in its single delay: the interval timer
  fires, or the consumer goes away.
\<close>

datatype hb_event = Tick | PeerGone

record env =
  delay :: "nat \<Rightarrow> delay_outcome"
  peer_gone :: "nat \<Rightarrow> bool"
  during :: "hb_event list"
  clock :: "nat \<Rightarrow> jsstring"

text \<open>
  \<open>new Date().toISOString()\<close>: the time read when the next unit is written, given by the
  number of units written before it.
\<close>

definition timestamp :: "env \<Rightarrow> controller \<Rightarrow> jsstring" where
  "timestamp e c = clock e (length (chunks c))"

definition after_wait :: "env \<Rightarrow> nat \<Rightarrow> controller \<Rightarrow> controller" where
  "after_wait e k c = (if peer_gone e k then peer_cancel c else c)"

section \<open>Stream mode\<close>

definition stream_start :: "jsstring \<Rightarrow> json" where
  "stream_start ts = JObj
     [(str ''type'', JStr (str ''start'')),
      (str ''message'', JStr (str ''Starting delayed operation...'')),
      (str ''timestamp'', JStr ts)]"

definition stream_progress :: "number \<Rightarrow> number \<Rightarrow> number \<Rightarrow> jsstring \<Rightarrow> json" where
  "stream_progress progress elapsed duration ts = JObj
     [(str ''type'', JStr (str ''progress'')),
      (str ''progress'', json_of_number progress),
      (str ''elapsed'', json_of_number elapsed),
      (str ''duration'', json_of_number duration),
      (str ''timestamp'', JStr ts)]"

definition stream_complete :: "number \<Rightarrow> jsstring \<Rightarrow> json" where
  "stream_complete duration ts = JObj
     [(str ''type'', JStr (str ''complete'')),
      (str ''mode'', JStr (str ''stream'')),
      (str ''message'',
         JStr (str ''Completed after '' @ Number_toString duration @ str ''ms using streaming'')),
      (str ''timestamp'', JStr ts),
      (str ''duration'', json_of_number duration)]"

definition intervalMs :: "number \<Rightarrow> number" where
  "intervalMs duration = Math_min (Num 1000) (js_div duration (Num 5))"

text \<open>
  The catch clause of the stream handler: an \<open>AbortError\<close> closes the stream, any other
  error is passed to \<open>controller.error\<close>. A \<open>close\<close> that throws inside the catch clause
  rejects the start promise, which errors the stream if it is still readable.
\<close>

definition stream_catch :: "bool \<Rightarrow> controller \<Rightarrow> controller" where
  "stream_catch abort_error c =
     (if abort_error then (case close c of Some c' \<Rightarrow> c' | None \<Rightarrow> controller_error c)
      else controller_error c)"

text \<open>
  The body of \<open>start\<close> from the \<open>while\<close> loop on. \<open>k\<close> counts the waits made so far. The
  loop is a partial function: \<open>None\<close> says it never leaves the loop.
\<close>

partial_function (option) stream_loop ::
  "env \<Rightarrow> number \<Rightarrow> nat \<Rightarrow> number \<Rightarrow> controller \<Rightarrow> controller option" where
  "stream_loop e duration k elapsed c =
     (if js_lt elapsed duration then
        (let waitTime = Math_min (intervalMs duration) (js_sub duration elapsed);
             c1 = after_wait e k c in
         case delay e k of
           Aborted \<Rightarrow> Some (stream_catch True c1)
         | Failed \<Rightarrow> Some (stream_catch False c1)
         | Resolved \<Rightarrow>
             (let elapsed' = js_add elapsed waitTime;
                  progress = Math_round (js_mul (js_div elapsed' duration) (Num 100))
              in case enqueue (stream_progress progress elapsed' duration (timestamp e c1)) c1 of
                   None \<Rightarrow>
                     (case close c1 of
                        Some c2 \<Rightarrow> Some c2
                      | None \<Rightarrow> Some (stream_catch False c1))
                 | Some c2 \<Rightarrow> stream_loop e duration (Suc k) elapsed' c2))
      else
        (case enqueue (stream_complete duration (timestamp e c)) c of
           None \<Rightarrow> Some (stream_catch False c)
         | Some c1 \<Rightarrow>
             (case close c1 of
                Some c2 \<Rightarrow> Some c2
              | None \<Rightarrow> Some (stream_catch False c1))))"

definition handleStreamMode :: "env \<Rightarrow> number \<Rightarrow> controller option" where
  "handleStreamMode e duration =
     (case enqueue (stream_start (timestamp e new_controller)) new_controller of
        None \<Rightarrow> Some (stream_catch False new_controller)
      | Some c \<Rightarrow> stream_loop e duration 0 (Num 0) c)"

section \<open>Chunked mode\<close>

definition chunked_start :: json where
  "chunked_start = JObj
     [(str ''status'', JStr (str ''starting'')),
      (str ''message'', JStr (str ''Beginning chunked response...''))]"

definition chunked_progress :: "number \<Rightarrow> number \<Rightarrow> json" where
  "chunked_progress progress elapsed = JObj
     [(str ''status'', JStr (str ''progress'')),
      (str ''progress'', json_of_number progress),
      (str ''elapsed'', json_of_number elapsed)]"

definition chunked_complete :: "number \<Rightarrow> jsstring \<Rightarrow> json" where
  "chunked_complete duration ts = JObj
     [(str ''status'', JStr (str ''complete'')),
      (str ''mode'', JStr (str ''chunked'')),
      (str ''message'',
         JStr (str ''Completed after '' @ Number_toString duration
               @ str ''ms using chunked response'')),
      (str ''timestamp'', JStr ts),
      (str ''duration'', json_of_number duration)]"

definition checkInterval :: number where
  "checkInterval = Num 500"

text \<open>
  The catch clause of the chunked handler: any error but an \<open>AbortError\<close> is passed to
  \<open>controller.error\<close>, and the stream is closed in both cases.
\<close>

definition chunked_catch :: "bool \<Rightarrow> controller \<Rightarrow> controller" where
  "chunked_catch abort_error c =
     (let c1 = (if abort_error then c else controller_error c)
      in case close c1 of Some c2 \<Rightarrow> c2 | None \<Rightarrow> controller_error c1)"

partial_function (option) chunked_loop ::
  "env \<Rightarrow> number \<Rightarrow> nat \<Rightarrow> number \<Rightarrow> controller \<Rightarrow> controller option" where
  "chunked_loop e duration k elapsed c =
     (if js_lt elapsed duration then
        (let waitTime = Math_min checkInterval (js_sub duration elapsed);
             c1 = after_wait e k c in
         case delay e k of
           Aborted \<Rightarrow> Some (chunked_catch True c1)
         | Failed \<Rightarrow> Some (chunked_catch False c1)
         | Resolved \<Rightarrow>
             (let elapsed' = js_add elapsed waitTime;
                  progress = Math_round (js_mul (js_div elapsed' duration) (Num 100))
              in case enqueue (chunked_progress progress elapsed') c1 of
                   None \<Rightarrow>
                     (case close c1 of
                        Some c2 \<Rightarrow> Some c2
                      | None \<Rightarrow> Some (chunked_catch False c1))
                 | Some c2 \<Rightarrow> chunked_loop e duration (Suc k) elapsed' c2))
      else
        (case enqueue (chunked_complete duration (timestamp e c)) c of
           None \<Rightarrow> Some (chunked_catch False c)
         | Some c1 \<Rightarrow>
             (case close c1 of
                Some c2 \<Rightarrow> Some c2
              | None \<Rightarrow> Some (chunked_catch False c1))))"

definition handleChunkedMode :: "env \<Rightarrow> number \<Rightarrow> controller option" where
  "handleChunkedMode e duration =
     (case enqueue chunked_start new_controller of
        None \<Rightarrow> Some (chunked_catch False new_controller)
      | Some c \<Rightarrow> chunked_loop e duration 0 (Num 0) c)"

section \<open>Heartbeat mode\<close>

definition heartbeat_start :: "jsstring \<Rightarrow> json" where
  "heartbeat_start ts = JObj
     [(str ''type'', JStr (str ''start'')),
      (str ''message'', JStr (str ''Starting with heartbeat monitoring...'')),
      (str ''timestamp'', JStr ts)]"

definition heartbeat_beat :: "jsstring \<Rightarrow> json" where
  "heartbeat_beat ts = JObj
     [(str ''type'', JStr (str ''heartbeat'')),
      (str ''timestamp'', JStr ts)]"

definition heartbeat_complete :: "number \<Rightarrow> jsstring \<Rightarrow> json" where
  "heartbeat_complete duration ts = JObj
     [(str ''type'', JStr (str ''complete'')),
      (str ''mode'', JStr (str ''heartbeat'')),
      (str ''message'',
         JStr (str ''Completed after '' @ Number_toString duration
               @ str ''ms with heartbeat monitoring'')),
      (str ''timestamp'', JStr ts),
      (str ''duration'', json_of_number duration)]"

text \<open>
  The state of one heartbeat operation: the controller, whether \<open>heartbeatInterval\<close> holds
  a running timer (\<open>False\<close> is \<open>null\<close>), the calls made on the timer and on the stream in
  the order they were made, and whether an exception left the timer callback or \<open>start\<close>
  uncaught.
\<close>

datatype action = SetInterval | ClearInterval | CloseStream | ErrorStream

record hb_state =
  ctl :: controller
  heartbeatInterval :: bool
  calls :: "action list"
  uncaught :: bool

definition hb_clear :: "hb_state \<Rightarrow> hb_state" where
  "hb_clear s =
     (if heartbeatInterval s
      then s\<lparr>heartbeatInterval := False, calls := calls s @ [ClearInterval]\<rparr>
      else s)"

definition hb_close :: "hb_state \<Rightarrow> hb_state" where
  "hb_close s =
     (case close (ctl s) of
        Some c \<Rightarrow> s\<lparr>ctl := c, calls := calls s @ [CloseStream]\<rparr>
      | None \<Rightarrow> s\<lparr>calls := calls s @ [CloseStream], uncaught := True\<rparr>)"

definition hb_error :: "hb_state \<Rightarrow> hb_state" where
  "hb_error s = s\<lparr>ctl := controller_error (ctl s), calls := calls s @ [ErrorStream]\<rparr>"

text \<open>The catch clause of \<open>start\<close>.\<close>

definition hb_catch :: "bool \<Rightarrow> hb_state \<Rightarrow> hb_state" where
  "hb_catch abort_error s =
     (let s1 = hb_clear s;
          s2 = (if abort_error then s1 else hb_error s1)
      in hb_close s2)"

text \<open>\<open>start\<close> up to its \<open>await\<close>: the first event is written and the timer is set.\<close>

definition hb_begin :: "env \<Rightarrow> hb_state" where
  "hb_begin e =
     (let s = \<lparr>ctl = new_controller, heartbeatInterval = False, calls = [], uncaught = False\<rparr>
      in case enqueue (heartbeat_start (timestamp e (ctl s))) (ctl s) of
           None \<Rightarrow> hb_catch False s
         | Some c \<Rightarrow> s\<lparr>ctl := c, heartbeatInterval := True, calls := calls s @ [SetInterval]\<rparr>)"

text \<open>
  The callback of \<open>setInterval\<close>; it runs only while the timer is set. The event loop
  runs one callback at a time, so each event is one step.
\<close>

definition hb_tick :: "env \<Rightarrow> hb_state \<Rightarrow> hb_state" where
  "hb_tick e s =
     (if \<not> heartbeatInterval s then s
      else case enqueue (heartbeat_beat (timestamp e (ctl s))) (ctl s) of
             Some c \<Rightarrow> s\<lparr>ctl := c\<rparr>
           | None \<Rightarrow> hb_close (hb_clear s))"

fun hb_step :: "env \<Rightarrow> hb_state \<Rightarrow> hb_event \<Rightarrow> hb_state" where
  "hb_step e s Tick = hb_tick e s"
| "hb_step e s PeerGone = s\<lparr>ctl := peer_cancel (ctl s)\<rparr>"

text \<open>\<open>start\<close> from the point where the main delay settles.\<close>

definition hb_settle :: "env \<Rightarrow> number \<Rightarrow> delay_outcome \<Rightarrow> hb_state \<Rightarrow> hb_state" where
  "hb_settle e duration outcome s =
     (case outcome of
        Aborted \<Rightarrow> hb_catch True s
      | Failed \<Rightarrow> hb_catch False s
      | Resolved \<Rightarrow>
          (let s1 = hb_clear s
           in case enqueue (heartbeat_complete duration (timestamp e (ctl s1))) (ctl s1) of
                None \<Rightarrow> hb_catch False s1
              | Some c \<Rightarrow> hb_close (s1\<lparr>ctl := c\<rparr>)))"

text \<open>
  If the first write fails the handler never reaches its delay; otherwise the events that
  arrive during the delay are handled one by one, and then the delay settles.
\<close>

definition handleHeartbeatMode :: "env \<Rightarrow> number \<Rightarrow> hb_state" where
  "handleHeartbeatMode e duration =
     (let s = hb_begin e
      in if heartbeatInterval s
         then hb_settle e duration (delay e 0) (foldl (hb_step e) s (during e))
         else s)"

section \<open>Signal mode and the route\<close>

datatype body = Text jsstring | Json json | Stream "controller option"

record response =
  status :: nat
  content_type :: "jsstring option"
  body :: body

definition signal_complete :: "number \<Rightarrow> jsstring \<Rightarrow> json" where
  "signal_complete duration ts = JObj
     [(str ''mode'', JStr (str ''signal'')),
      (str ''message'',
         JStr (str ''Completed after '' @ Number_toString duration
               @ str ''ms using AbortSignal'')),
      (str ''timestamp'', JStr ts),
      (str ''duration'', json_of_number duration)]"

text \<open>
  The handler returns a response, or rethrows the error of the delay (\<open>None\<close>) when it is
  not an \<open>AbortError\<close>. A \<open>Response\<close> made from a string has the content type
  \<open>text/plain\<close>.
\<close>

definition handleSignalMode :: "env \<Rightarrow> number \<Rightarrow> response option" where
  "handleSignalMode e duration =
     (case delay e 0 of
        Resolved \<Rightarrow>
          Some \<lparr>status = 200, content_type = Some (str ''application/json''),
                body = Json (signal_complete duration (clock e 0))\<rparr>
      | Aborted \<Rightarrow>
          Some \<lparr>status = 499, content_type = Some (str ''text/plain;charset=UTF-8''),
                body = Text (str ''Request was aborted'')\<rparr>
      | Failed \<Rightarrow> None)"

text \<open>
  \<open>parseInt\<close> with no radix: leading white space is dropped, then a sign, then a
  \<open>0x\<close> or \<open>0X\<close> prefix (which selects radix 16); the longest run of digits that follows
  is the value, and no digit at all gives \<open>NaN\<close>.
\<close>

definition StrWhiteSpaceChar :: "jschar \<Rightarrow> bool" where
  "StrWhiteSpaceChar c \<longleftrightarrow>
     c \<in> {0x9, 0xA, 0xB, 0xC, 0xD, 0x20, 0xA0, 0x1680, 0x2028, 0x2029, 0x202F, 0x205F,
          0x3000, 0xFEFF} \<or> (0x2000 \<le> c \<and> c \<le> 0x200A)"

definition digit_value :: "jschar \<Rightarrow> nat option" where
  "digit_value c =
     (if 0x30 \<le> c \<and> c \<le> 0x39 then Some (unat c - 0x30)
      else if 0x61 \<le> c \<and> c \<le> 0x7A then Some (unat c - 0x61 + 10)
      else if 0x41 \<le> c \<and> c \<le> 0x5A then Some (unat c - 0x41 + 10)
      else None)"

definition is_digit :: "nat \<Rightarrow> jschar \<Rightarrow> bool" where
  "is_digit radix c = (case digit_value c of Some d \<Rightarrow> d < radix | None \<Rightarrow> False)"

definition digits_value :: "nat \<Rightarrow> jsstring \<Rightarrow> nat" where
  "digits_value radix z = foldl (\<lambda>a c. a * radix + the (digit_value c)) 0 z"

definition parseInt :: "jsstring \<Rightarrow> number" where
  "parseInt input =
     (let s = dropWhile StrWhiteSpaceChar input;
          negative = (take 1 s = str ''-'');
          s1 = (if take 1 s = str ''+'' \<or> take 1 s = str ''-'' then drop 1 s else s);
          hex = (take 2 s1 = str ''0x'' \<or> take 2 s1 = str ''0X'');
          radix = (if hex then 16 else 10);
          s2 = (if hex then drop 2 s1 else s1);
          z = takeWhile (is_digit radix) s2
      in if z = [] then NaN
         else if negative then Num (- of_nat (digits_value radix z))
         else Num (of_nat (digits_value radix z)))"

text \<open>\<open>x || d\<close> on a query parameter: \<open>null\<close> and the empty string give the default.\<close>

definition or_default :: "jsstring option \<Rightarrow> jsstring \<Rightarrow> jsstring" where
  "or_default x d = (case x of None \<Rightarrow> d | Some s \<Rightarrow> if s = [] then d else s)"

definition stream_response :: "jsstring \<Rightarrow> controller option \<Rightarrow> response" where
  "stream_response ct s = \<lparr>status = 200, content_type = Some ct, body = Stream s\<rparr>"

definition text_response :: "nat \<Rightarrow> jsstring \<Rightarrow> response" where
  "text_response st s =
     \<lparr>status = st, content_type = Some (str ''text/plain;charset=UTF-8''), body = Text s\<rparr>"

text \<open>
  The route, given the two query parameters as \<open>url.searchParams.get\<close> returns them. The
  streaming handlers return their response at once; what their \<open>start\<close> does later is
  the stream of the body.
\<close>

definition GET :: "env \<Rightarrow> jsstring option \<Rightarrow> jsstring option \<Rightarrow> response" where
  "GET e mode_param duration_param =
     (let mode = or_default mode_param (str ''signal'');
          duration = parseInt (or_default duration_param (str ''5000''))
      in if mode = str ''signal'' then
           (case handleSignalMode e duration of
              Some r \<Rightarrow> r
            | None \<Rightarrow> text_response 500 (str ''Internal server error''))
         else if mode = str ''stream'' then
           stream_response (str ''application/x-ndjson'') (handleStreamMode e duration)
         else if mode = str ''heartbeat'' then
           stream_response (str ''text/event-stream'')
             (Some (ctl (handleHeartbeatMode e duration)))
         else if mode = str ''chunked'' then
           stream_response (str ''application/x-ndjson'') (handleChunkedMode e duration)
         else text_response 400 (str ''Invalid mode''))"

text \<open>A run in which nothing goes wrong: every delay resolves and the consumer stays.\<close>

definition undisturbed :: "nat \<Rightarrow> (nat \<Rightarrow> jsstring) \<Rightarrow> env" where
  "undisturbed n clk =
     \<lparr>delay = (\<lambda>_. Resolved), peer_gone = (\<lambda>_. False), during = replicate n Tick,
      clock = clk\<rparr>"

section \<open>Reading the units of a stream\<close>

definition field :: "json \<Rightarrow> jsstring \<Rightarrow> json option" where
  "field u k = (case u of JObj kvs \<Rightarrow> lookup_last k kvs | _ \<Rightarrow> None)"

definition is_complete :: "json \<Rightarrow> bool" where
  "is_complete u \<longleftrightarrow>
     field u (str ''status'') = Some (JStr (str ''complete''))
     \<or> field u (str ''type'') = Some (JStr (str ''complete''))"

definition is_progress :: "json \<Rightarrow> bool" where
  "is_progress u \<longleftrightarrow>
     field u (str ''status'') = Some (JStr (str ''progress''))
     \<or> field u (str ''type'') = Some (JStr (str ''progress''))"

definition is_start :: "json \<Rightarrow> bool" where
  "is_start u \<longleftrightarrow>
     field u (str ''status'') = Some (JStr (str ''starting''))
     \<or> field u (str ''type'') = Some (JStr (str ''start''))"

definition progress_values :: "json list \<Rightarrow> json option list" where
  "progress_values us = map (\<lambda>u. field u (str ''progress'')) (filter is_progress us)"


section \<open>Properties of the units a handler writes\<close>

text \<open>A fixed clock and a request whose signal has fired, for the concrete runs below.\<close>

definition epoch :: "nat \<Rightarrow> jsstring" where
  "epoch k = str ''1970-01-01T00:00:00.000Z''"

definition aborting :: env where
  "aborting = \<lparr>delay = (\<lambda>_. Aborted), peer_gone = (\<lambda>_. False), during = [], clock = epoch\<rparr>"

text \<open>How many start, progress and completion units a stream holds.\<close>

definition census :: "json list \<Rightarrow> nat \<times> nat \<times> nat" where
  "census us =
     (length (filter is_start us), length (filter is_progress us), length (filter is_complete us))"




text \<open>
  Reading the calls of a heartbeat operation from the first to the last: whether the
  timer is running after them, and whether every call that closes or errors the stream
  was made with the timer cleared.
\<close>

fun scan :: "bool \<times> bool \<Rightarrow> action \<Rightarrow> bool \<times> bool" where
  "scan (running, ok) SetInterval = (True, ok)"
| "scan (running, ok) ClearInterval = (False, ok)"
| "scan (running, ok) CloseStream = (running, ok \<and> \<not> running)"
| "scan (running, ok) ErrorStream = (running, ok \<and> \<not> running)"

definition timer_running :: "action list \<Rightarrow> bool" where
  "timer_running cs = fst (foldl scan (False, True) cs)"

definition cleared_before_close :: "action list \<Rightarrow> bool" where
  "cleared_before_close cs = snd (foldl scan (False, True) cs)"

definition hb_inv :: "hb_state \<Rightarrow> bool" where
  "hb_inv s \<longleftrightarrow> timer_running (calls s) = heartbeatInterval s \<and> cleared_before_close (calls s)"

definition object_keys :: "json \<Rightarrow> jsstring list" where
  "object_keys v = (case v of JObj kvs \<Rightarrow> map fst kvs | _ \<Rightarrow> [])"

definition starts_with_digit :: "jsstring \<Rightarrow> bool" where
  "starts_with_digit s = (case s of [] \<Rightarrow> False | c # _ \<Rightarrow> 0x30 \<le> c \<and> c \<le> 0x39)"

section \<open>Text on the client: decoding, lines, JSON\<close>

text \<open>
  The bytes of a response body, and \<open>TextDecoder\<close> for UTF-8 as the Encoding Standard
  defines it: the decoder is fed one byte at a time, keeps the state of a sequence it has
  not finished, and writes U+FFFD for a sequence that is not well formed. A byte
  order mark at the very start of the output is dropped.
\<close>

type_synonym byte = "8 word"

definition bytes :: "string \<Rightarrow> byte list" where
  "bytes s = map of_char s"

record decoder =
  code_point :: nat
  bytes_seen :: nat
  bytes_needed :: nat
  lower_boundary :: byte
  upper_boundary :: byte
  bom_seen :: bool

definition new_decoder :: decoder where
  "new_decoder =
     \<lparr>code_point = 0, bytes_seen = 0, bytes_needed = 0, lower_boundary = 0x80,
      upper_boundary = 0xBF, bom_seen = False\<rparr>"

definition reset :: "decoder \<Rightarrow> decoder" where
  "reset d =
     d\<lparr>code_point := 0, bytes_seen := 0, bytes_needed := 0, lower_boundary := 0x80,
       upper_boundary := 0xBF\<rparr>"

text \<open>The handler when no sequence is open.\<close>

definition lead :: "decoder \<Rightarrow> byte \<Rightarrow> decoder \<times> nat list" where
  "lead d b =
     (if b \<le> 0x7F then (d, [unat b])
      else if 0xC2 \<le> b \<and> b \<le> 0xDF then
        (d\<lparr>bytes_needed := 1, code_point := unat b mod 0x20\<rparr>, [])
      else if 0xE0 \<le> b \<and> b \<le> 0xEF then
        (d\<lparr>lower_boundary := (if b = 0xE0 then 0xA0 else lower_boundary d),
           upper_boundary := (if b = 0xED then 0x9F else upper_boundary d),
           bytes_needed := 2, code_point := unat b mod 0x10\<rparr>, [])
      else if 0xF0 \<le> b \<and> b \<le> 0xF4 then
        (d\<lparr>lower_boundary := (if b = 0xF0 then 0x90 else lower_boundary d),
           upper_boundary := (if b = 0xF4 then 0x8F else upper_boundary d),
           bytes_needed := 3, code_point := unat b mod 0x8\<rparr>, [])
      else (d, [0xFFFD]))"

text \<open>
  The handler. A byte that cannot continue the open sequence ends it with U+FFFD and is
  then handled again with no sequence open.
\<close>

definition utf8_handler :: "decoder \<Rightarrow> byte \<Rightarrow> decoder \<times> nat list" where
  "utf8_handler d b =
     (if bytes_needed d = 0 then lead d b
      else if b < lower_boundary d \<or> upper_boundary d < b then
        (let (d', out) = lead (reset d) b in (d', 0xFFFD # out))
      else
        (let d1 = d\<lparr>lower_boundary := 0x80, upper_boundary := 0xBF,
                     code_point := code_point d * 0x40 + unat b mod 0x40,
                     bytes_seen := bytes_seen d + 1\<rparr>
         in if bytes_seen d1 \<noteq> bytes_needed d1 then (d1, [])
            else (reset d1, [code_point d1])))"

fun process :: "decoder \<Rightarrow> byte list \<Rightarrow> decoder \<times> nat list" where
  "process d [] = (d, [])"
| "process d (b # bs) =
     (let (d1, out1) = utf8_handler d b; (d2, out2) = process d1 bs in (d2, out1 @ out2))"

text \<open>A scalar value as UTF-16 code units.\<close>

definition utf16 :: "nat \<Rightarrow> jsstring" where
  "utf16 cp =
     (if cp < 0x10000 then [of_nat cp]
      else [of_nat (0xD800 + (cp - 0x10000) div 0x400),
            of_nat (0xDC00 + (cp - 0x10000) mod 0x400)])"

text \<open>
  Writing the scalar values out: the first one ever written sets the mark-seen flag, and
  is dropped when it is U+FEFF.
\<close>

fun serialize :: "bool \<Rightarrow> nat list \<Rightarrow> bool \<times> jsstring" where
  "serialize seen [] = (seen, [])"
| "serialize seen (x # xs) =
     (if \<not> seen \<and> x = 0xFEFF then serialize True xs
      else (let (seen', out) = serialize True xs in (seen', utf16 x @ out)))"

text \<open>
  \<open>decoder.decode(value, {stream: true})\<close>: the decoder goes on from the state the last
  call left and is not flushed.
\<close>

definition decode_stream :: "decoder \<Rightarrow> byte list \<Rightarrow> decoder \<times> jsstring" where
  "decode_stream d bs =
     (let (d1, out) = process d bs;
          (seen, s) = serialize (bom_seen d1) out
      in (d1\<lparr>bom_seen := seen\<rparr>, s))"

text \<open>
  \<open>decoder.decode(value)\<close>: a call without the stream option starts from a fresh state
  (the call before it was not a streaming one either) and flushes at the end, which
  writes U+FFFD for a sequence left open.
\<close>

definition decode :: "byte list \<Rightarrow> jsstring" where
  "decode bs =
     (let (d1, out) = process new_decoder bs;
          out' = out @ (if bytes_needed d1 \<noteq> 0 then [0xFFFD] else [])
      in snd (serialize False out'))"

text \<open>
  \<open>s.split("\n")\<close>: the pieces between line feeds; there is always at least one. The
  text is read from the left with the piece that is open.
\<close>

fun split_from :: "jsstring \<Rightarrow> jsstring \<Rightarrow> jsstring list" where
  "split_from piece [] = [piece]"
| "split_from piece (c # cs) =
     (if c = 0x0A then piece # split_from [] cs else split_from (piece @ [c]) cs)"

definition split_lines :: "jsstring \<Rightarrow> jsstring list" where
  "split_lines s = split_from [] s"

text \<open>\<open>s.trim()\<close> removes white space and line terminators at both ends.\<close>

definition trim :: "jsstring \<Rightarrow> jsstring" where
  "trim s = rev (dropWhile StrWhiteSpaceChar (rev (dropWhile StrWhiteSpaceChar s)))"

subsection \<open>\<open>JSON.parse\<close>\<close>

definition json_ws :: "jschar \<Rightarrow> bool" where
  "json_ws c \<longleftrightarrow> c = 0x20 \<or> c = 0x09 \<or> c = 0x0A \<or> c = 0x0D"

definition skip_ws :: "jsstring \<Rightarrow> jsstring" where
  "skip_ws s = dropWhile json_ws s"

definition dec_digit :: "jschar \<Rightarrow> bool" where
  "dec_digit c \<longleftrightarrow> 0x30 \<le> c \<and> c \<le> 0x39"

text \<open>The four hexadecimal digits of a \<open>\u\<close> escape.\<close>

definition hex4 :: "jsstring \<Rightarrow> jschar option" where
  "hex4 s =
     (if length (take 4 s) = 4 \<and> list_all (is_digit 16) (take 4 s)
      then Some (of_nat (digits_value 16 (take 4 s))) else None)"

text \<open>
  The characters of a string after its opening quote, up to the closing quote. A
  control character must be escaped.
\<close>

function parse_chars :: "jsstring \<Rightarrow> jsstring \<Rightarrow> (jsstring \<times> jsstring) option" where
  "parse_chars acc [] = None"
| "parse_chars acc (c # cs) =
     (if c = 0x22 then Some (rev acc, cs)
      else if c = 0x5C then
        (case cs of
           [] \<Rightarrow> None
         | e # cs' \<Rightarrow>
             if e = 0x22 \<or> e = 0x5C \<or> e = 0x2F then parse_chars (e # acc) cs'
             else if e = 0x62 then parse_chars (0x08 # acc) cs'
             else if e = 0x66 then parse_chars (0x0C # acc) cs'
             else if e = 0x6E then parse_chars (0x0A # acc) cs'
             else if e = 0x72 then parse_chars (0x0D # acc) cs'
             else if e = 0x74 then parse_chars (0x09 # acc) cs'
             else if e = 0x75 then
               (case hex4 cs' of
                  None \<Rightarrow> None
                | Some u \<Rightarrow> parse_chars (u # acc) (drop 4 cs'))
             else None)
      else if c < 0x20 then None
      else parse_chars (c # acc) cs)"
  by pat_completeness auto
termination
  by (relation "measure (\<lambda>(acc, s). length s)") auto

text \<open>
  A number: an optional minus sign, an integer part without a leading zero, an optional
  fraction and an optional exponent. Its value is kept exact.
\<close>

definition parse_number :: "jsstring \<Rightarrow> (rat \<times> jsstring) option" where
  "parse_number s =
     (let negative = (take 1 s = str ''-'');
          s1 = (if negative then drop 1 s else s);
          ip = (if take 1 s1 = str ''0'' then take 1 s1 else takeWhile dec_digit s1);
          s2 = drop (length ip) s1;
          has_frac = (take 1 s2 = str ''.'');
          fp = (if has_frac then takeWhile dec_digit (drop 1 s2) else []);
          s3 = (if has_frac then drop (1 + length fp) s2 else s2);
          has_exp = (take 1 s3 = str ''e'' \<or> take 1 s3 = str ''E'');
          s4 = (if has_exp then drop 1 s3 else s3);
          exp_negative = (take 1 s4 = str ''-'');
          s5 = (if has_exp \<and> (take 1 s4 = str ''+'' \<or> take 1 s4 = str ''-'') then drop 1 s4 else s4);
          ep = (if has_exp then takeWhile dec_digit s5 else []);
          s6 = drop (length ep) s5;
          mantissa = (of_nat (digits_value 10 (ip @ fp)) :: rat) / 10 ^ length fp;
          magnitude = (if exp_negative then mantissa / 10 ^ digits_value 10 ep
                       else mantissa * 10 ^ digits_value 10 ep)
      in if ip = [] \<or> (has_frac \<and> fp = []) \<or> (has_exp \<and> ep = []) then None
         else Some (if negative then - magnitude else magnitude, s6))"

text \<open>
  A value, the elements of an array after its opening bracket, and the members of an
  object after its opening brace. Each returns what it read and the text left. The test
  that the text left is shorter than the text given never fails; it is there to make the
  recursion well founded.
\<close>

function parse_value :: "jsstring \<Rightarrow> (json \<times> jsstring) option"
  and parse_elements :: "json list \<Rightarrow> jsstring \<Rightarrow> (json list \<times> jsstring) option"
  and parse_members ::
    "(jsstring \<times> json) list \<Rightarrow> jsstring \<Rightarrow> ((jsstring \<times> json) list \<times> jsstring) option"
where
  "parse_value s =
     (case skip_ws s of
        [] \<Rightarrow> None
      | c # cs \<Rightarrow>
          if c = 0x5B then
            (if take 1 (skip_ws cs) = str '']'' then Some (JArr [], drop 1 (skip_ws cs))
             else (case parse_elements [] cs of
                     None \<Rightarrow> None
                   | Some (vs, r) \<Rightarrow> Some (JArr vs, r)))
          else if c = 0x7B then
            (if take 1 (skip_ws cs) = str ''}'' then Some (JObj [], drop 1 (skip_ws cs))
             else (case parse_members [] cs of
                     None \<Rightarrow> None
                   | Some (ms, r) \<Rightarrow> Some (JObj ms, r)))
          else if c = 0x22 then
            (case parse_chars [] cs of
               None \<Rightarrow> None
             | Some (x, r) \<Rightarrow> Some (JStr x, r))
          else if take 4 (c # cs) = str ''true'' then Some (JBool True, drop 4 (c # cs))
          else if take 5 (c # cs) = str ''false'' then Some (JBool False, drop 5 (c # cs))
          else if take 4 (c # cs) = str ''null'' then Some (JNull, drop 4 (c # cs))
          else (case parse_number (c # cs) of
                  None \<Rightarrow> None
                | Some (x, r) \<Rightarrow> Some (JNum x, r)))"
| "parse_elements acc s =
     (case parse_value s of
        None \<Rightarrow> None
      | Some (v, r) \<Rightarrow>
          if length r < length s then
            (case skip_ws r of
               [] \<Rightarrow> None
             | c # cs \<Rightarrow>
                 if c = 0x2C then parse_elements (acc @ [v]) cs
                 else if c = 0x5D then Some (acc @ [v], cs)
                 else None)
          else None)"
| "parse_members acc s =
     (case skip_ws s of
        [] \<Rightarrow> None
      | q # s1 \<Rightarrow>
          if q = 0x22 then
            (case parse_chars [] s1 of
               None \<Rightarrow> None
             | Some (k, s2) \<Rightarrow>
                 (case skip_ws s2 of
                    [] \<Rightarrow> None
                  | colon # s3 \<Rightarrow>
                      if colon = 0x3A \<and> length s3 < length s then
                        (case parse_value s3 of
                           None \<Rightarrow> None
                         | Some (v, r) \<Rightarrow>
                             if length r < length s3 then
                               (case skip_ws r of
                                  [] \<Rightarrow> None
                                | c # cs \<Rightarrow>
                                    if c = 0x2C then parse_members (acc @ [(k, v)]) cs
                                    else if c = 0x7D then Some (acc @ [(k, v)], cs)
                                    else None)
                             else None)
                      else None))
          else None)"
  by pat_completeness auto
termination
proof (relation "measure (\<lambda>x. case x of
          Inl s \<Rightarrow> 2 * length s
        | Inr (Inl (acc, s)) \<Rightarrow> 2 * length s + 1
        | Inr (Inr (acc, s)) \<Rightarrow> 2 * length s + 1)", goal_cases)
  case 1
  show ?case by simp
next
  case (2 s c cs)
  have "length (skip_ws s) \<le> length s"
    by (simp add: skip_ws_def length_dropWhile_le)
  with 2 show ?case by simp
next
  case (3 s c cs)
  have "length (skip_ws s) \<le> length s"
    by (simp add: skip_ws_def length_dropWhile_le)
  with 3 show ?case by simp
next
  case (4 acc s)
  show ?case by simp
next
  case (5 acc s x v r c cs)
  have "length (skip_ws r) \<le> length r"
    by (simp add: skip_ws_def length_dropWhile_le)
  with 5 show ?case by simp
next
  case (6 acc s q s1 x k s2 colon s3)
  then show ?case by simp
next
  case (7 acc s q s1 x k s2 colon s3 y v r c cs)
  have "length (skip_ws r) \<le> length r"
    by (simp add: skip_ws_def length_dropWhile_le)
  with 7 show ?case by simp
qed

declare parse_value.simps [simp del] parse_elements.simps [simp del]
  parse_members.simps [simp del]

text \<open>
  \<open>JSON.parse\<close>: one value with white space around it and nothing else; \<open>None\<close> is the
  \<open>SyntaxError\<close> it throws.
\<close>

definition JSON_parse :: "jsstring \<Rightarrow> json option" where
  "JSON_parse s =
     (case parse_value s of
        None \<Rightarrow> None
      | Some (v, r) \<Rightarrow> if skip_ws r = [] then Some v else None)"

section \<open>The client (page.tsx)\<close>

datatype ApiMode = SignalMode | StreamMode | HeartbeatMode | ChunkedMode

text \<open>
  The state of the component: the four pieces of result state, the selected mode, the two
  refs, and the \<open>aborted\<close> flag of the signal of every \<open>AbortController\<close> made so far (a
  controller is known by its position in that list). \<open>response\<close> and \<open>progress\<close> hold
  whatever value was stored, \<open>JNull\<close> being \<open>null\<close>.
\<close>

record client =
  loading :: bool
  response :: json
  error :: "jsstring option"
  progress :: json
  mode :: ApiMode
  requestIdRef :: nat
  abortControllerRef :: "nat option"
  aborted :: "bool list"

definition initial :: client where
  "initial =
     \<lparr>loading = False, response = JNull, error = None, progress = JNum 0, mode = SignalMode,
      requestIdRef = 0, abortControllerRef = None, aborted = []\<rparr>"

definition signal_aborted :: "client \<Rightarrow> nat \<Rightarrow> bool" where
  "signal_aborted st c \<longleftrightarrow> c < length (aborted st) \<and> aborted st ! c"

definition cleanupRequest :: "client \<Rightarrow> client" where
  "cleanupRequest st =
     (case abortControllerRef st of
        Some c \<Rightarrow> st\<lparr>aborted := (aborted st)[c := True], abortControllerRef := None\<rparr>
      | None \<Rightarrow> st)"

definition handleCancelRequest :: "client \<Rightarrow> client" where
  "handleCancelRequest st =
     (cleanupRequest st)
       \<lparr>loading := False, progress := JNum 0, error := Some (str ''Request cancelled by user'')\<rparr>"

text \<open>
  A thrown value: an \<open>Error\<close> with its name and message, or something that is not an
  \<open>Error\<close>.
\<close>

datatype exn = Exn jsstring jsstring | NotAnError

text \<open>
  What the awaited promises settle with: \<open>fetch\<close> with a response (its status and whether
  it has a body) or a rejection, \<open>res.json()\<close> with a value or a rejection,
  \<open>reader.read()\<close> with a chunk, the end of the stream, or a rejection.
\<close>

record http_response =
  http_status :: nat
  has_body :: bool

definition ok :: "http_response \<Rightarrow> bool" where
  "ok r \<longleftrightarrow> 200 \<le> http_status r \<and> http_status r \<le> 299"

datatype read_result = Chunk "byte list" | Done

datatype input =
    Fetched "exn + http_response"
  | Parsed "exn + json"
  | Read "exn + read_result"

text \<open>
  One call of \<open>handleApiCall\<close> that is waiting: the identity and the controller it took
  when it started, the mode it was started with, and the \<open>await\<close> it is suspended at
  (with the buffer and the decoder of \<open>handleStreamResponse\<close>).
\<close>

datatype pc =
    AwaitFetch
  | AwaitJson
  | AwaitReadSSE
  | AwaitReadStream jsstring decoder

record task =
  currentRequestId :: nat
  abortController :: nat
  task_mode :: ApiMode
  pc :: pc

text \<open>\<open>handleApiCall\<close> up to \<open>await fetch\<close>.\<close>

definition handleApiCall :: "client \<Rightarrow> task option \<times> client" where
  "handleApiCall st =
     (if loading st then (None, st)
      else
        (let st1 = cleanupRequest st;
             st2 = st1\<lparr>requestIdRef := requestIdRef st1 + 1\<rparr>;
             st3 = st2\<lparr>loading := True, response := JNull, error := None, progress := JNum 0\<rparr>;
             c = length (aborted st3);
             st4 = st3\<lparr>aborted := aborted st3 @ [False], abortControllerRef := Some c\<rparr>
         in (Some \<lparr>currentRequestId = requestIdRef st2, abortController = c,
                   task_mode = mode st, pc = AwaitFetch\<rparr>, st4)))"

text \<open>The catch clause and the finally clause of \<open>handleApiCall\<close>.\<close>

definition catch_clause :: "task \<Rightarrow> exn \<Rightarrow> client \<Rightarrow> client" where
  "catch_clause t err st =
     (if currentRequestId t \<noteq> requestIdRef st then st
      else case err of
             Exn name message \<Rightarrow>
               if name = str ''AbortError'' then st\<lparr>error := Some (str ''Request was cancelled'')\<rparr>
               else st\<lparr>error := Some message\<rparr>
           | NotAnError \<Rightarrow> st\<lparr>error := Some (str ''An error occurred'')\<rparr>)"

definition finally_clause :: "task \<Rightarrow> client \<Rightarrow> client" where
  "finally_clause t st =
     (if currentRequestId t = requestIdRef st
      then st\<lparr>loading := False, abortControllerRef := None\<rparr>
      else st)"

text \<open>\<open>x || 0\<close>: \<open>undefined\<close> and the falsy values give 0.\<close>

fun truthy :: "json \<Rightarrow> bool" where
  "truthy JNull = False"
| "truthy (JBool b) = b"
| "truthy (JNum x) = (x \<noteq> 0)"
| "truthy (JStr s) = (s \<noteq> [])"
| "truthy (JArr vs) = True"
| "truthy (JObj ms) = True"

definition or_zero :: "json option \<Rightarrow> json" where
  "or_zero v = (case v of None \<Rightarrow> JNum 0 | Some x \<Rightarrow> if truthy x then x else JNum 0)"

text \<open>
  The body of the loop over the lines of \<open>handleSSEResponse\<close>. The \<open>try\<close> around it
  swallows the \<open>SyntaxError\<close> of \<open>JSON.parse\<close> and the \<open>TypeError\<close> of reading a
  property of \<open>null\<close>.
\<close>

definition sse_line :: "jsstring \<Rightarrow> client \<Rightarrow> client" where
  "sse_line line st =
     (if take 6 line = str ''data: '' then
        (case JSON_parse (drop 6 line) of
           None \<Rightarrow> st
         | Some parsed \<Rightarrow>
             (case get_prop parsed (str ''type'') of
                None \<Rightarrow> st
              | Some ty \<Rightarrow>
                  if ty = Some (JStr (str ''complete'')) then st\<lparr>response := parsed\<rparr>
                  else if ty = Some (JStr (str ''progress'')) then
                    (case get_prop parsed (str ''progress'') of
                       None \<Rightarrow> st
                     | Some p \<Rightarrow> st\<lparr>progress := or_zero p\<rparr>)
                  else st))
      else st)"

text \<open>The body of the loop over the lines of \<open>handleStreamResponse\<close>.\<close>

definition ndjson_line :: "jsstring \<Rightarrow> client \<Rightarrow> client" where
  "ndjson_line line st =
     (if trim line \<noteq> [] then
        (case JSON_parse line of
           None \<Rightarrow> st
         | Some data \<Rightarrow>
             (case get_prop data (str ''status'') of
                None \<Rightarrow> st
              | Some sv \<Rightarrow>
                  (case get_prop data (str ''type'') of
                     None \<Rightarrow> st
                   | Some ty \<Rightarrow>
                       if sv = Some (JStr (str ''complete''))
                          \<or> ty = Some (JStr (str ''complete''))
                       then st\<lparr>response := data\<rparr>
                       else if sv = Some (JStr (str ''progress''))
                          \<or> ty = Some (JStr (str ''progress''))
                       then
                         (case get_prop data (str ''progress'') of
                            None \<Rightarrow> st
                          | Some p \<Rightarrow> st\<lparr>progress := or_zero p\<rparr>)
                       else st)))
      else st)"

text \<open>
  One read of \<open>handleStreamResponse\<close>: the chunk is decoded and appended to the buffer,
  the text is split, the last piece goes back to the buffer and the other pieces are the
  lines handled now.
\<close>

definition take_lines ::
  "jsstring \<times> decoder \<Rightarrow> byte list \<Rightarrow> jsstring list \<times> (jsstring \<times> decoder)" where
  "take_lines bd value =
     (let (d', text) = decode_stream (snd bd) value;
          lines = split_lines (fst bd @ text)
      in (butlast lines, (last lines, d')))"

text \<open>\<open>handleApiCall\<close> from the point where \<open>fetch\<close> settles.\<close>

definition after_fetch :: "task \<Rightarrow> exn + http_response \<Rightarrow> client \<Rightarrow> task option \<times> client" where
  "after_fetch t res st =
     (case res of
        Inl err \<Rightarrow> (None, finally_clause t (catch_clause t err st))
      | Inr r \<Rightarrow>
          if currentRequestId t \<noteq> requestIdRef st then (None, finally_clause t st)
          else if signal_aborted st (abortController t) then (None, finally_clause t st)
          else if http_status r = 499 then
            (None, finally_clause t (st\<lparr>error := Some (str ''Request was cancelled by server'')\<rparr>))
          else if \<not> ok r then
            (None, finally_clause t
               (catch_clause t (Exn (str ''Error'') (str ''HTTP error! status: '' @ digits (http_status r)))
                  st))
          else
            (case task_mode t of
               SignalMode \<Rightarrow> (Some (t\<lparr>pc := AwaitJson\<rparr>), st)
             | HeartbeatMode \<Rightarrow>
                 if has_body r then (Some (t\<lparr>pc := AwaitReadSSE\<rparr>), st)
                 else (None, finally_clause t st)
             | _ \<Rightarrow>
                 if has_body r then (Some (t\<lparr>pc := AwaitReadStream [] new_decoder\<rparr>), st)
                 else (None, finally_clause t st)))"

text \<open>From the point where \<open>res.json()\<close> settles.\<close>

definition after_json :: "task \<Rightarrow> exn + json \<Rightarrow> client \<Rightarrow> task option \<times> client" where
  "after_json t res st =
     (case res of
        Inl err \<Rightarrow> (None, finally_clause t (catch_clause t err st))
      | Inr data \<Rightarrow>
          (None, finally_clause t
             (if currentRequestId t = requestIdRef st \<and> \<not> signal_aborted st (abortController t)
              then st\<lparr>response := data\<rparr> else st)))"

text \<open>\<open>handleSSEResponse\<close> from the point where \<open>reader.read()\<close> settles.\<close>

definition after_read_sse ::
  "task \<Rightarrow> exn + read_result \<Rightarrow> client \<Rightarrow> task option \<times> client" where
  "after_read_sse t res st =
     (case res of
        Inl err \<Rightarrow> (None, finally_clause t (catch_clause t err st))
      | Inr Done \<Rightarrow> (None, finally_clause t st)
      | Inr (Chunk value) \<Rightarrow>
          if currentRequestId t \<noteq> requestIdRef st \<or> signal_aborted st (abortController t)
          then (None, finally_clause t st)
          else (Some t, foldl (\<lambda>s line. sse_line line s) st (split_lines (decode value))))"

text \<open>\<open>handleStreamResponse\<close> from the point where \<open>reader.read()\<close> settles.\<close>

definition after_read_stream ::
  "task \<Rightarrow> jsstring \<times> decoder \<Rightarrow> exn + read_result \<Rightarrow> client \<Rightarrow> task option \<times> client" where
  "after_read_stream t bd res st =
     (case res of
        Inl err \<Rightarrow> (None, finally_clause t (catch_clause t err st))
      | Inr Done \<Rightarrow> (None, finally_clause t st)
      | Inr (Chunk value) \<Rightarrow>
          if currentRequestId t \<noteq> requestIdRef st \<or> signal_aborted st (abortController t)
          then (None, finally_clause t st)
          else
            (let (lines, bd') = take_lines bd value
             in (Some (t\<lparr>pc := AwaitReadStream (fst bd') (snd bd')\<rparr>),
                 foldl (\<lambda>s line. ndjson_line line s) st lines)))"

text \<open>
  A waiting call goes on when the promise it waits for settles, and runs to its next
  \<open>await\<close> (it is then still waiting) or to its end. Nothing else runs in between.
\<close>

fun resume :: "task \<Rightarrow> input \<Rightarrow> client \<Rightarrow> task option \<times> client" where
  "resume t (Fetched res) st = (if pc t = AwaitFetch then after_fetch t res st else (Some t, st))"
| "resume t (Parsed res) st = (if pc t = AwaitJson then after_json t res st else (Some t, st))"
| "resume t (Read res) st =
     (case pc t of
        AwaitReadSSE \<Rightarrow> after_read_sse t res st
      | AwaitReadStream buffer d \<Rightarrow> after_read_stream t (buffer, d) res st
      | _ \<Rightarrow> (Some t, st))"

text \<open>A call given, one after the other, what its promises settle with.\<close>

fun deliver :: "task \<Rightarrow> client \<Rightarrow> input list \<Rightarrow> task option \<times> client" where
  "deliver t st [] = (Some t, st)"
| "deliver t st (i # is) =
     (case resume t i st of
        (None, st') \<Rightarrow> (None, st')
      | (Some t', st') \<Rightarrow> deliver t' st' is)"

text \<open>A body that arrives in the given chunks and then ends.\<close>

definition body_reads :: "byte list list \<Rightarrow> input list" where
  "body_reads cs = map (\<lambda>c. Read (Inr (Chunk c))) cs @ [Read (Inr Done)]"

text \<open>
  The lines the two read loops hand to their loop bodies, over all the reads of a body,
  and the units \<open>JSON.parse\<close> makes of them.
\<close>

definition sse_lines :: "byte list list \<Rightarrow> jsstring list" where
  "sse_lines cs = concat (map (\<lambda>c. split_lines (decode c)) cs)"

fun stream_lines :: "jsstring \<times> decoder \<Rightarrow> byte list list \<Rightarrow> jsstring list" where
  "stream_lines bd [] = []"
| "stream_lines bd (c # cs) = fst (take_lines bd c) @ stream_lines (snd (take_lines bd c)) cs"

definition ndjson_units :: "jsstring list \<Rightarrow> json list" where
  "ndjson_units ls = List.map_filter (\<lambda>l. if trim l \<noteq> [] then JSON_parse l else None) ls"

definition sse_units :: "jsstring list \<Rightarrow> json list" where
  "sse_units ls =
     List.map_filter (\<lambda>l. if take 6 l = str ''data: '' then JSON_parse (drop 6 l) else None) ls"

text \<open>
  The component with all its calls of \<open>handleApiCall\<close>, in the order they were started
  (\<open>None\<close> for a call that has ended), and what can happen to it: the button is
  clicked, the request is cancelled by the user, the component is unmounted, another mode
  is selected, or a promise of one of the calls settles.
\<close>

record system =
  shared :: client
  tasks :: "task option list"

datatype event = Click | Cancel | Unmount | SetMode ApiMode | Settle nat input

fun step :: "system \<Rightarrow> event \<Rightarrow> system" where
  "step sys Click =
     (case handleApiCall (shared sys) of
        (None, st) \<Rightarrow> sys\<lparr>shared := st\<rparr>
      | (Some t, st) \<Rightarrow> \<lparr>shared = st, tasks = tasks sys @ [Some t]\<rparr>)"
| "step sys Cancel = sys\<lparr>shared := handleCancelRequest (shared sys)\<rparr>"
| "step sys Unmount = sys\<lparr>shared := cleanupRequest (shared sys)\<rparr>"
| "step sys (SetMode m) = sys\<lparr>shared := (shared sys)\<lparr>mode := m\<rparr>\<rparr>"
| "step sys (Settle i inp) =
     (if i < length (tasks sys) then
        (case tasks sys ! i of
           None \<Rightarrow> sys
         | Some t \<Rightarrow>
             (case resume t inp (shared sys) of
                (t', st) \<Rightarrow> \<lparr>shared = st, tasks = (tasks sys)[i := t']\<rparr>))
      else sys)"

definition start :: system where
  "start = \<lparr>shared = initial, tasks = []\<rparr>"

definition run :: "event list \<Rightarrow> system" where
  "run evs = foldl step start evs"

section \<open>Properties of the client\<close>

text \<open>The buffer and the decoder of \<open>handleStreamResponse\<close> after the given reads.\<close>

fun feed :: "jsstring \<times> decoder \<Rightarrow> byte list list \<Rightarrow> jsstring \<times> decoder" where
  "feed bd [] = bd"
| "feed bd (c # cs) = feed (snd (take_lines bd c)) cs"

definition ascii :: "byte list \<Rightarrow> bool" where
  "ascii bs = list_all (\<lambda>b. b \<le> 0x7F) bs"

text \<open>Two states that differ at most in \<open>response\<close> and \<open>progress\<close>.\<close>

definition same_control :: "client \<Rightarrow> client \<Rightarrow> bool" where
  "same_control a b \<longleftrightarrow>
     requestIdRef a = requestIdRef b \<and> aborted a = aborted b \<and> loading a = loading b
     \<and> error a = error b \<and> abortControllerRef a = abortControllerRef b \<and> mode a = mode b"

text \<open>A call that has been neither superseded nor aborted.\<close>

definition current :: "task \<Rightarrow> client \<Rightarrow> bool" where
  "current t st \<longleftrightarrow>
     currentRequestId t = requestIdRef st \<and> \<not> signal_aborted st (abortController t)"

text \<open>
  The calls are numbered in the order they were started, and the identity ref holds the
  number of the last one.
\<close>

definition numbered :: "system \<Rightarrow> bool" where
  "numbered sys \<longleftrightarrow>
     requestIdRef (shared sys) = length (tasks sys)
     \<and> (\<forall>k t. k < length (tasks sys) \<longrightarrow> tasks sys ! k = Some t \<longrightarrow> currentRequestId t = Suc k)"

text \<open>
  Concrete runs: a mode is selected, the button is clicked and \<open>fetch\<close> resolves with a
  200 response that has a body; the first call and the state of the component at that
  point; and the component after a click, a cancel and a second click.
\<close>

definition ok_response :: http_response where
  "ok_response = \<lparr>http_status = 200, has_body = True\<rparr>"

definition open_body :: "ApiMode \<Rightarrow> event list" where
  "open_body m = [SetMode m, Click, Settle 0 (Fetched (Inr ok_response))]"

definition reader :: "ApiMode \<Rightarrow> pc \<Rightarrow> task" where
  "reader m p = \<lparr>currentRequestId = 1, abortController = 0, task_mode = m, pc = p\<rparr>"

definition busy :: "ApiMode \<Rightarrow> client" where
  "busy m =
     \<lparr>loading = True, response = JNull, error = None, progress = JNum 0, mode = m,
      requestIdRef = 1, abortControllerRef = Some 0, aborted = [False]\<rparr>"

definition second_request :: system where
  "second_request =
     \<lparr>shared =
        \<lparr>loading = True, response = JNull, error = None, progress = JNum 0, mode = SignalMode,
         requestIdRef = 2, abortControllerRef = Some 1, aborted = [True, False]\<rparr>,
      tasks = [Some (reader SignalMode AwaitFetch),
               Some \<lparr>currentRequestId = 2, abortController = 1, task_mode = SignalMode,
                     pc = AwaitFetch\<rparr>]\<rparr>"

section \<open>The route handlers: lemmas\<close>

lemma floor_rat_numeral_divide [simp]:
  "\<lfloor>(numeral a :: rat) / numeral b\<rfloor> = numeral a div numeral b"
  by (metis floor_divide_of_int_eq of_int_numeral)

lemma stream_progress_kind [simp]:
  "is_progress (stream_progress p el d ts)"
  "\<not> is_complete (stream_progress p el d ts)"
  "field (stream_progress p el d ts) (str ''progress'') = Some (json_of_number p)"
  "field (stream_progress p el d ts) (str ''elapsed'') = Some (json_of_number el)"
  by (simp_all add: is_progress_def is_complete_def field_def stream_progress_def str_def)

lemma stream_complete_kind [simp]:
  "\<not> is_progress (stream_complete d ts)"
  "is_complete (stream_complete d ts)"
  "field (stream_complete d ts) (str ''duration'') = Some (json_of_number d)"
  by (simp_all add: is_progress_def is_complete_def field_def stream_complete_def str_def)

lemma stream_start_kind [simp]:
  "\<not> is_progress (stream_start ts)"
  "\<not> is_complete (stream_start ts)"
  "is_start (stream_start ts)"
  by (simp_all add: is_progress_def is_complete_def is_start_def field_def stream_start_def str_def)


lemma undisturbed_simps [simp]:
  "delay (undisturbed n clk) k = Resolved"
  "peer_gone (undisturbed n clk) k = False"
  "clock (undisturbed n clk) = clk"
  "during (undisturbed n clk) = replicate n Tick"
  by (simp_all add: undisturbed_def)

lemma stream_loop_exit:
  "sstate c = Readable \<Longrightarrow> \<not> js_lt elapsed duration \<Longrightarrow>
   stream_loop e duration k elapsed c =
     Some \<lparr>sstate = Closed, chunks = chunks c @ [stream_complete duration (clock e (length (chunks c)))]\<rparr>"
  by (subst stream_loop.simps) (simp add: enqueue_def close_def timestamp_def)



lemma chunked_progress_kind [simp]:
  "is_progress (chunked_progress p el)"
  "\<not> is_complete (chunked_progress p el)"
  "\<not> is_start (chunked_progress p el)"
  "field (chunked_progress p el) (str ''progress'') = Some (json_of_number p)"
  "field (chunked_progress p el) (str ''elapsed'') = Some (json_of_number el)"
  by (simp_all add: is_progress_def is_complete_def is_start_def field_def chunked_progress_def str_def)

lemma chunked_complete_kind [simp]:
  "\<not> is_progress (chunked_complete d ts)"
  "is_complete (chunked_complete d ts)"
  "\<not> is_start (chunked_complete d ts)"
  "field (chunked_complete d ts) (str ''duration'') = Some (json_of_number d)"
  by (simp_all add: is_progress_def is_complete_def is_start_def field_def chunked_complete_def str_def)

lemma chunked_start_kind [simp]:
  "\<not> is_progress chunked_start"
  "\<not> is_complete chunked_start"
  "is_start chunked_start"
  by (simp_all add: is_progress_def is_complete_def is_start_def field_def chunked_start_def str_def)

lemma stream_kind_more [simp]:
  "\<not> is_start (stream_progress p el d ts)"
  "\<not> is_start (stream_complete d ts)"
  by (simp_all add: is_start_def field_def stream_progress_def stream_complete_def str_def)

lemma chunked_loop_exit:
  "sstate c = Readable \<Longrightarrow> \<not> js_lt elapsed duration \<Longrightarrow>
   chunked_loop e duration k elapsed c =
     Some \<lparr>sstate = Closed, chunks = chunks c @ [chunked_complete duration (clock e (length (chunks c)))]\<rparr>"
  by (subst chunked_loop.simps) (simp add: enqueue_def close_def timestamp_def)






lemma scan_snoc:
  "timer_running (cs @ [a]) = fst (scan (timer_running cs, cleared_before_close cs) a)"
  "cleared_before_close (cs @ [a]) = snd (scan (timer_running cs, cleared_before_close cs) a)"
  by (simp_all add: timer_running_def cleared_before_close_def)

lemma hb_clear_inv: "hb_inv s \<Longrightarrow> hb_inv (hb_clear s) \<and> \<not> heartbeatInterval (hb_clear s)"
  by (simp add: hb_inv_def hb_clear_def scan_snoc)

lemma hb_close_inv:
  "hb_inv s \<Longrightarrow> \<not> heartbeatInterval s \<Longrightarrow>
   hb_inv (hb_close s) \<and> \<not> heartbeatInterval (hb_close s) \<and> sstate (ctl (hb_close s)) \<noteq> Readable"
  by (auto simp: hb_inv_def hb_close_def scan_snoc close_def split: option.splits if_splits)

lemma hb_error_inv:
  "hb_inv s \<Longrightarrow> \<not> heartbeatInterval s \<Longrightarrow> hb_inv (hb_error s) \<and> \<not> heartbeatInterval (hb_error s)"
  by (simp add: hb_inv_def hb_error_def scan_snoc)

lemma hb_catch_inv:
  "hb_inv s \<Longrightarrow>
   hb_inv (hb_catch a s) \<and> \<not> heartbeatInterval (hb_catch a s) \<and> sstate (ctl (hb_catch a s)) \<noteq> Readable"
  using hb_clear_inv[of s] hb_error_inv[of "hb_clear s"]
    hb_close_inv[of "hb_clear s"] hb_close_inv[of "hb_error (hb_clear s)"]
  by (simp add: hb_catch_def Let_def)

lemma hb_begin_inv: "hb_inv (hb_begin e)"
proof -
  have "hb_inv \<lparr>ctl = new_controller, heartbeatInterval = False, calls = [], uncaught = False\<rparr>"
    by (simp add: hb_inv_def timer_running_def cleared_before_close_def)
  then show ?thesis
    using hb_catch_inv[of "\<lparr>ctl = new_controller, heartbeatInterval = False, calls = [], uncaught = False\<rparr>" False]
    by (simp add: hb_begin_def Let_def hb_inv_def timer_running_def cleared_before_close_def split: option.splits)
qed

lemma hb_tick_inv: "hb_inv s \<Longrightarrow> hb_inv (hb_tick e s)"
  using hb_clear_inv[of s] hb_close_inv[of "hb_clear s"]
  by (auto simp: hb_tick_def hb_inv_def split: option.splits)

lemma hb_step_inv: "hb_inv s \<Longrightarrow> hb_inv (hb_step e s ev)"
  by (cases ev) (simp_all add: hb_tick_inv, simp add: hb_inv_def)

lemma hb_steps_inv: "hb_inv s \<Longrightarrow> hb_inv (foldl (hb_step e) s evs)"
  by (induction evs arbitrary: s) (simp_all add: hb_step_inv)

lemma hb_settle_inv:
  assumes "hb_inv s"
  shows "hb_inv (hb_settle e d out s) \<and> \<not> heartbeatInterval (hb_settle e d out s)
         \<and> sstate (ctl (hb_settle e d out s)) \<noteq> Readable"
proof (cases out)
  case Resolved
  have c: "hb_inv (hb_clear s)" "\<not> heartbeatInterval (hb_clear s)"
    using hb_clear_inv[OF assms] by simp_all
  show ?thesis
  proof (cases "enqueue (heartbeat_complete d (timestamp e (ctl (hb_clear s)))) (ctl (hb_clear s))")
    case None
    with Resolved hb_catch_inv[OF c(1), of False] show ?thesis
      by (simp add: hb_settle_def Let_def)
  next
    case (Some c')
    have "hb_inv (hb_clear s\<lparr>ctl := c'\<rparr>)" "\<not> heartbeatInterval (hb_clear s\<lparr>ctl := c'\<rparr>)"
      using c by (simp_all add: hb_inv_def)
    from hb_close_inv[OF this] Resolved Some show ?thesis
      by (simp add: hb_settle_def Let_def)
  qed
next
  case Aborted
  with hb_catch_inv[OF assms, of True] show ?thesis by (simp add: hb_settle_def)
next
  case Failed
  with hb_catch_inv[OF assms, of False] show ?thesis by (simp add: hb_settle_def)
qed

lemma heartbeat_kind [simp]:
  "\<not> is_complete (heartbeat_start ts)" "\<not> is_complete (heartbeat_beat ts)"
  "is_complete (heartbeat_complete d ts)"
  "is_start (heartbeat_start ts)"
  by (simp_all add: is_complete_def is_start_def field_def heartbeat_start_def heartbeat_beat_def
       heartbeat_complete_def str_def)



subsection \<open>The two loops always end\<close>

lemma stream_loop_leaves:
  "\<not> js_lt elapsed duration \<Longrightarrow> \<exists>c'. stream_loop e duration k elapsed c = Some c'"
  by (subst stream_loop.simps) (simp split: option.splits)

lemma stream_loop_returns:
  assumes "0 < d" "el \<le> d" "d - el \<le> of_nat n * min 1000 (d / 5)"
  shows "\<exists>c'. stream_loop e (Num d) k (Num el) c = Some c'"
  using assms
proof (induction n arbitrary: el k c)
  case 0
  then have "\<not> js_lt (Num el) (Num d)" by simp
  then show ?case by (rule stream_loop_leaves)
next
  case (Suc n)
  show ?case
  proof (cases "el < d")
    case False
    then have "\<not> js_lt (Num el) (Num d)" by simp
    then show ?thesis by (rule stream_loop_leaves)
  next
    case True
    define i where "i = min 1000 (d / 5)"
    define el' where "el' = el + min i (d - el)"
    have ipos: "0 < i" using Suc.prems(1) by (simp add: i_def)
    have le: "el' \<le> d" using True by (simp add: el'_def min_def)
    have rest: "d - el' \<le> of_nat n * min 1000 (d / 5)"
    proof (cases "i \<le> d - el")
      case True
      then have "el' = el + i" by (simp add: el'_def)
      with Suc.prems(3) show ?thesis by (simp add: i_def algebra_simps)
    next
      case False
      then have "el' = d" by (simp add: el'_def)
      with ipos show ?thesis by (simp add: i_def)
    qed
    have next_one: "\<exists>c'. stream_loop e (Num d) (Suc k) (Num el') c2 = Some c'" for c2
      by (rule Suc.IH[OF Suc.prems(1) le rest])
    show ?thesis
      using True Suc.prems(1) next_one
      by (subst stream_loop.simps)
         (simp add: intervalMs_def Let_def el'_def i_def split: delay_outcome.splits option.splits)
  qed
qed

lemma handleStreamMode_returns: "\<exists>c. handleStreamMode e duration = Some c"
proof (cases "js_lt (Num 0) duration")
  case False
  then show ?thesis
    using stream_loop_leaves[of "Num 0" duration e 0]
    by (simp add: handleStreamMode_def split: option.splits)
next
  case True
  then obtain d where d: "duration = Num d" "0 < d" by (cases duration) simp_all
  obtain m :: nat where "d / min 1000 (d / 5) \<le> of_nat m"
    using real_arch_simple by blast
  with d have "d - 0 \<le> of_nat m * min 1000 (d / 5)"
    by (simp add: pos_divide_le_eq)
  from stream_loop_returns[OF d(2) _ this] d show ?thesis
    by (simp add: handleStreamMode_def split: option.splits)
qed

lemma chunked_loop_leaves:
  "\<not> js_lt elapsed duration \<Longrightarrow> \<exists>c'. chunked_loop e duration k elapsed c = Some c'"
  by (subst chunked_loop.simps) (simp split: option.splits)

lemma chunked_loop_returns:
  assumes "0 < d" "el \<le> d" "d - el \<le> of_nat n * 500"
  shows "\<exists>c'. chunked_loop e (Num d) k (Num el) c = Some c'"
  using assms
proof (induction n arbitrary: el k c)
  case 0
  then have "\<not> js_lt (Num el) (Num d)" by simp
  then show ?case by (rule chunked_loop_leaves)
next
  case (Suc n)
  show ?case
  proof (cases "el < d")
    case False
    then have "\<not> js_lt (Num el) (Num d)" by simp
    then show ?thesis by (rule chunked_loop_leaves)
  next
    case True
    define el' where "el' = el + min 500 (d - el)"
    have le: "el' \<le> d" using True by (simp add: el'_def min_def)
    have rest: "d - el' \<le> of_nat n * 500"
    proof (cases "500 \<le> d - el")
      case True
      then have "el' = el + 500" by (simp add: el'_def)
      with Suc.prems(3) show ?thesis by (simp add: algebra_simps)
    next
      case False
      then have "el' = d" by (simp add: el'_def)
      then show ?thesis by simp
    qed
    have next_one: "\<exists>c'. chunked_loop e (Num d) (Suc k) (Num el') c2 = Some c'" for c2
      by (rule Suc.IH[OF Suc.prems(1) le rest])
    show ?thesis
      using True Suc.prems(1) next_one
      by (subst chunked_loop.simps)
         (simp add: checkInterval_def Let_def el'_def split: delay_outcome.splits option.splits)
  qed
qed

lemma handleChunkedMode_returns: "\<exists>c. handleChunkedMode e duration = Some c"
proof (cases "js_lt (Num 0) duration")
  case False
  then show ?thesis
    using chunked_loop_leaves[of "Num 0" duration e 0]
    by (simp add: handleChunkedMode_def split: option.splits)
next
  case True
  then obtain d where d: "duration = Num d" "0 < d" by (cases duration) simp_all
  obtain m :: nat where "d / 500 \<le> of_nat m"
    using real_arch_simple by blast
  then have "d - 0 \<le> of_nat m * 500" by simp
  from chunked_loop_returns[OF d(2) _ this] d show ?thesis
    by (simp add: handleChunkedMode_def split: option.splits)
qed

section \<open>The route handlers: results\<close>

lemma parseInt_eval:
  "parseInt (str ''5000'') = Num 5000"
  "parseInt (str ''+10'') = Num 10"
  "parseInt (str ''abc'') = NaN"
  by (simp_all add: parseInt_def str_def StrWhiteSpaceChar_def is_digit_def digit_value_def
      digits_value_def)

lemma mode_names [simp]:
  "str ''stream'' \<noteq> str ''signal''" "str ''chunked'' \<noteq> str ''signal''"
  "str ''chunked'' \<noteq> str ''stream''" "str ''chunked'' \<noteq> str ''heartbeat''"
  "str ''stream'' \<noteq> []" "str ''chunked'' \<noteq> []" "str ''signal'' \<noteq> []"
  "str ''abc'' \<noteq> []" "str ''+10'' \<noteq> []" "str ''5000'' \<noteq> []"
  "\<not> starts_with_digit (str ''+10'')"
  by (simp_all add: str_def starts_with_digit_def)

lemma stream_run_5000:
  "handleStreamMode (undisturbed n clk) (Num 5000) = Some \<lparr>sstate = Closed, chunks =
     [stream_start (clk 0),
      stream_progress (Num 20) (Num 1000) (Num 5000) (clk 1),
      stream_progress (Num 40) (Num 2000) (Num 5000) (clk 2),
      stream_progress (Num 60) (Num 3000) (Num 5000) (clk 3),
      stream_progress (Num 80) (Num 4000) (Num 5000) (clk 4),
      stream_progress (Num 100) (Num 5000) (Num 5000) (clk 5),
      stream_complete (Num 5000) (clk 6)]\<rparr>"
  by (simp add: handleStreamMode_def stream_loop.simps intervalMs_def enqueue_def close_def
      new_controller_def timestamp_def after_wait_def Let_def eval_nat_numeral)


lemma stream_no_ticks:
  "\<not> js_lt (Num 0) duration \<Longrightarrow>
   handleStreamMode e duration = Some \<lparr>sstate = Closed, chunks =
     [stream_start (clock e 0), stream_complete duration (clock e 1)]\<rparr>"
  by (simp add: handleStreamMode_def enqueue_def new_controller_def timestamp_def
      stream_loop_exit)

lemma chunked_no_ticks:
  "\<not> js_lt (Num 0) duration \<Longrightarrow>
   handleChunkedMode e duration = Some \<lparr>sstate = Closed, chunks =
     [chunked_start, chunked_complete duration (clock e 1)]\<rparr>"
  by (simp add: handleChunkedMode_def enqueue_def new_controller_def chunked_loop_exit)

lemma census_start_complete:
  "census [stream_start a, stream_complete d b] = (1, 0, 1)"
  "census [chunked_start, chunked_complete d b] = (1, 0, 1)"
  by (simp_all add: census_def)




text \<open>
  C5. For every duration that is 0 or negative, whatever happens to the request and to
  the consumer, the stream handler and the chunked handler each write exactly two units
  and close the stream: one start unit, then one completion unit, and no progress unit.
\<close>

theorem nonpositive_duration_start_then_complete:
  assumes "d \<le> 0"
  shows "handleStreamMode e (Num d) =
           Some \<lparr>sstate = Closed,
                 chunks = [stream_start (clock e 0), stream_complete (Num d) (clock e 1)]\<rparr>
       \<and> census [stream_start (clock e 0), stream_complete (Num d) (clock e 1)] = (1, 0, 1)
       \<and> handleChunkedMode e (Num d) =
           Some \<lparr>sstate = Closed, chunks = [chunked_start, chunked_complete (Num d) (clock e 1)]\<rparr>
       \<and> census [chunked_start, chunked_complete (Num d) (clock e 1)] = (1, 0, 1)"
  using assms by (simp add: stream_no_ticks chunked_no_ticks census_start_complete)

theorem nonpositive_duration_start_then_complete_witness:
  "(- 3::rat) \<le> 0
   \<and> handleStreamMode aborting (Num (- 3)) =
           Some \<lparr>sstate = Closed,
                 chunks = [stream_start (epoch 0), stream_complete (Num (- 3)) (epoch 1)]\<rparr>
   \<and> census [stream_start (epoch 0), stream_complete (Num (- 3)) (epoch 1)] = (1, 0, 1)
   \<and> handleChunkedMode aborting (Num (- 3)) =
           Some \<lparr>sstate = Closed, chunks = [chunked_start, chunked_complete (Num (- 3)) (epoch 1)]\<rparr>
   \<and> census [chunked_start, chunked_complete (Num (- 3)) (epoch 1)] = (1, 0, 1)"
  using nonpositive_duration_start_then_complete[of "- 3" aborting]
  by (simp add: aborting_def)

text \<open>
  C6. In signal mode, when the delay runs to its end the response has status 200 and a
  JSON body, an object with exactly the members mode, message, timestamp and duration, in
  which mode is "signal" and duration is the duration asked for; when the signal of the
  request fires first, the response has status 499 and the plain text
  "Request was aborted" as its body, not a JSON value. The route passes both responses on
  as they are.
\<close>

theorem signal_mode_responses:
  "(delay e 0 = Resolved \<longrightarrow>
      (\<exists>v. handleSignalMode e duration =
              Some \<lparr>status = 200, content_type = Some (str ''application/json''), body = Json v\<rparr>
          \<and> object_keys v = [str ''mode'', str ''message'', str ''timestamp'', str ''duration'']
          \<and> field v (str ''mode'') = Some (JStr (str ''signal''))
          \<and> field v (str ''timestamp'') = Some (JStr (clock e 0))
          \<and> field v (str ''duration'') = Some (json_of_number duration)))
   \<and> (delay e 0 = Aborted \<longrightarrow>
        handleSignalMode e duration =
          Some \<lparr>status = 499, content_type = Some (str ''text/plain;charset=UTF-8''),
                body = Text (str ''Request was aborted'')\<rparr>)
   \<and> (delay e 0 \<noteq> Failed \<longrightarrow>
        Some (GET e (Some (str ''signal'')) duration_param)
          = handleSignalMode e (parseInt (or_default duration_param (str ''5000''))))"
proof (intro conjI impI)
  assume "delay e 0 = Resolved"
  then have "handleSignalMode e duration =
      Some \<lparr>status = 200, content_type = Some (str ''application/json''),
            body = Json (signal_complete duration (clock e 0))\<rparr>"
    by (simp add: handleSignalMode_def)
  moreover have "object_keys (signal_complete duration (clock e 0))
      = [str ''mode'', str ''message'', str ''timestamp'', str ''duration'']"
    by (simp add: signal_complete_def object_keys_def)
  moreover have "field (signal_complete duration (clock e 0)) (str ''mode'') = Some (JStr (str ''signal''))"
    "field (signal_complete duration (clock e 0)) (str ''timestamp'') = Some (JStr (clock e 0))"
    "field (signal_complete duration (clock e 0)) (str ''duration'') = Some (json_of_number duration)"
    by (simp_all add: signal_complete_def field_def str_def)
  ultimately show "\<exists>v. handleSignalMode e duration =
              Some \<lparr>status = 200, content_type = Some (str ''application/json''), body = Json v\<rparr>
          \<and> object_keys v = [str ''mode'', str ''message'', str ''timestamp'', str ''duration'']
          \<and> field v (str ''mode'') = Some (JStr (str ''signal''))
          \<and> field v (str ''timestamp'') = Some (JStr (clock e 0))
          \<and> field v (str ''duration'') = Some (json_of_number duration)"
    by blast
next
  assume "delay e 0 = Aborted"
  then show "handleSignalMode e duration =
          Some \<lparr>status = 499, content_type = Some (str ''text/plain;charset=UTF-8''),
                body = Text (str ''Request was aborted'')\<rparr>"
    by (simp add: handleSignalMode_def)
next
  assume "delay e 0 \<noteq> Failed"
  then show "Some (GET e (Some (str ''signal'')) duration_param)
          = handleSignalMode e (parseInt (or_default duration_param (str ''5000'')))"
    by (cases "delay e 0") (simp_all add: GET_def or_default_def handleSignalMode_def Let_def)
qed

theorem signal_mode_responses_witness:
  "delay (undisturbed 0 epoch) 0 = Resolved
   \<and> (\<exists>v. handleSignalMode (undisturbed 0 epoch) (Num 3000) =
              Some \<lparr>status = 200, content_type = Some (str ''application/json''), body = Json v\<rparr>
          \<and> object_keys v = [str ''mode'', str ''message'', str ''timestamp'', str ''duration'']
          \<and> field v (str ''mode'') = Some (JStr (str ''signal''))
          \<and> field v (str ''timestamp'') = Some (JStr (epoch 0))
          \<and> field v (str ''duration'') = Some (JNum 3000))
   \<and> delay aborting 0 = Aborted
   \<and> handleSignalMode aborting (Num 3000) =
          Some \<lparr>status = 499, content_type = Some (str ''text/plain;charset=UTF-8''),
                body = Text (str ''Request was aborted'')\<rparr>
   \<and> delay aborting 0 \<noteq> Failed
   \<and> GET aborting (Some (str ''signal'')) (Some (str ''5000'')) =
          \<lparr>status = 499, content_type = Some (str ''text/plain;charset=UTF-8''),
           body = Text (str ''Request was aborted'')\<rparr>"
proof -
  have a: "delay aborting 0 = Aborted" by (simp add: aborting_def)
  have r: "delay (undisturbed 0 epoch) 0 = Resolved" by simp
  note w1 = signal_mode_responses[of "undisturbed 0 epoch" "Num 3000" None]
  note w2 = signal_mode_responses[of aborting "Num 3000" "Some (str ''5000'')"]
  note w3 = signal_mode_responses[of aborting "Num 5000" "Some (str ''5000'')"]
  have g: "GET aborting (Some (str ''signal'')) (Some (str ''5000'')) =
          \<lparr>status = 499, content_type = Some (str ''text/plain;charset=UTF-8''),
           body = Text (str ''Request was aborted'')\<rparr>"
    using w3 a by (auto simp: or_default_def parseInt_eval)
  show ?thesis
    using w1 w2 a r g by simp
qed

text \<open>
  C7. Whatever happens during a heartbeat operation (the timer firing, the consumer going
  away, the main delay resolving, being aborted or failing), when the operation has ended
  the heartbeat timer is cleared and the stream is no longer readable, and every call that
  closed or errored the stream was made after the timer had been cleared.
\<close>

theorem heartbeat_timer_cleared_before_close:
  "cleared_before_close (calls (handleHeartbeatMode e duration))
   \<and> \<not> timer_running (calls (handleHeartbeatMode e duration))
   \<and> \<not> heartbeatInterval (handleHeartbeatMode e duration)
   \<and> sstate (ctl (handleHeartbeatMode e duration)) \<noteq> Readable"
proof (cases "heartbeatInterval (hb_begin e)")
  case True
  have "hb_inv (foldl (hb_step e) (hb_begin e) (during e))"
    by (intro hb_steps_inv hb_begin_inv)
  from hb_settle_inv[OF this, of e duration "delay e 0"] True show ?thesis
    by (simp add: handleHeartbeatMode_def Let_def hb_inv_def)
next
  case False
  have b: "hb_begin e = \<lparr>ctl = new_controller\<lparr>chunks := [heartbeat_start (clock e 0)]\<rparr>,
     heartbeatInterval = True, calls = [SetInterval], uncaught = False\<rparr>"
    by (simp add: hb_begin_def enqueue_def new_controller_def timestamp_def)
  with False show ?thesis by simp
qed

text \<open>
  C9. For mode=stream and duration=5000 the tick interval is 1000 ms and an undisturbed
  run writes the start unit, five progress units with the values 20, 40, 60, 80, 100 at
  the elapsed times 1000, 2000, 3000, 4000, 5000, and then one completion unit whose
  duration is 5000. (The 0 that opens the sequence of the claim is the progress before
  the first tick; the start unit carries no progress value.)
\<close>

theorem stream_5000_scenario:
  "GET (undisturbed n clk) (Some (str ''stream'')) (Some (str ''5000'')) =
     \<lparr>status = 200, content_type = Some (str ''application/x-ndjson''),
      body = Stream (Some \<lparr>sstate = Closed, chunks =
        [stream_start (clk 0),
         stream_progress (Num 20) (Num 1000) (Num 5000) (clk 1),
         stream_progress (Num 40) (Num 2000) (Num 5000) (clk 2),
         stream_progress (Num 60) (Num 3000) (Num 5000) (clk 3),
         stream_progress (Num 80) (Num 4000) (Num 5000) (clk 4),
         stream_progress (Num 100) (Num 5000) (Num 5000) (clk 5),
         stream_complete (Num 5000) (clk 6)]\<rparr>)\<rparr>
   \<and> intervalMs (Num 5000) = Num 1000
   \<and> census
        [stream_start (clk 0),
         stream_progress (Num 20) (Num 1000) (Num 5000) (clk 1),
         stream_progress (Num 40) (Num 2000) (Num 5000) (clk 2),
         stream_progress (Num 60) (Num 3000) (Num 5000) (clk 3),
         stream_progress (Num 80) (Num 4000) (Num 5000) (clk 4),
         stream_progress (Num 100) (Num 5000) (Num 5000) (clk 5),
         stream_complete (Num 5000) (clk 6)] = (1, 5, 1)
   \<and> progress_values
        [stream_start (clk 0),
         stream_progress (Num 20) (Num 1000) (Num 5000) (clk 1),
         stream_progress (Num 40) (Num 2000) (Num 5000) (clk 2),
         stream_progress (Num 60) (Num 3000) (Num 5000) (clk 3),
         stream_progress (Num 80) (Num 4000) (Num 5000) (clk 4),
         stream_progress (Num 100) (Num 5000) (Num 5000) (clk 5),
         stream_complete (Num 5000) (clk 6)]
       = [Some (JNum 20), Some (JNum 40), Some (JNum 60), Some (JNum 80), Some (JNum 100)]
   \<and> field (stream_complete (Num 5000) (clk 6)) (str ''duration'') = Some (JNum 5000)"
  by (simp add: GET_def or_default_def parseInt_eval stream_run_5000 stream_response_def
      intervalMs_def census_def progress_values_def)




section \<open>The client: lemmas\<close>

subsection \<open>Decoding is independent of the chunking\<close>

lemma process_append:
  "process d (a @ b) =
     (let (d1, out1) = process d a; (d2, out2) = process d1 b in (d2, out1 @ out2))"
  by (induction a arbitrary: d) (simp_all add: Let_def split: prod.splits)

lemma serialize_append:
  "serialize seen (x @ y) =
     (let (s1, t1) = serialize seen x; (s2, t2) = serialize s1 y in (s2, t1 @ t2))"
  by (induction x arbitrary: seen) (simp_all add: Let_def split: prod.splits)

lemma lead_bom:
  "lead (d\<lparr>bom_seen := s\<rparr>) b = (fst (lead d b)\<lparr>bom_seen := s\<rparr>, snd (lead d b))"
  by (simp add: lead_def)

lemma utf8_handler_bom:
  "utf8_handler (d\<lparr>bom_seen := s\<rparr>) b =
     (fst (utf8_handler d b)\<lparr>bom_seen := s\<rparr>, snd (utf8_handler d b))"
  by (simp add: utf8_handler_def lead_def reset_def Let_def split: prod.splits)

lemma process_bom:
  "process (d\<lparr>bom_seen := s\<rparr>) bs = (fst (process d bs)\<lparr>bom_seen := s\<rparr>, snd (process d bs))"
proof (induction bs arbitrary: d)
  case Nil
  show ?case by simp
next
  case (Cons b bs)
  show ?case
    by (simp add: utf8_handler_bom Cons.IH Let_def split: prod.splits)
qed

lemma utf8_handler_keeps_bom: "bom_seen (fst (utf8_handler d b)) = bom_seen d"
  by (simp add: utf8_handler_def lead_def reset_def Let_def split: prod.splits)

lemma process_keeps_bom: "bom_seen (fst (process d bs)) = bom_seen d"
proof (induction bs arbitrary: d)
  case Nil
  show ?case by simp
next
  case (Cons b bs)
  obtain d1 o1 where h: "utf8_handler d b = (d1, o1)" by force
  obtain d2 o2 where p: "process d1 bs = (d2, o2)" by force
  have "bom_seen d1 = bom_seen d" using utf8_handler_keeps_bom[of d b] h by simp
  moreover have "bom_seen d2 = bom_seen d1" using Cons.IH[of d1] p by simp
  ultimately show ?case by (simp add: h p)
qed

lemma decode_stream_append:
  "decode_stream d (a @ b) =
     (let (d1, t1) = decode_stream d a; (d2, t2) = decode_stream d1 b in (d2, t1 @ t2))"
proof -
  obtain d1 o1 where p1: "process d a = (d1, o1)" by force
  obtain d2 o2 where p2: "process d1 b = (d2, o2)" by force
  obtain s1 t1 where s1: "serialize (bom_seen d) o1 = (s1, t1)" by force
  obtain s2 t2 where s2: "serialize s1 o2 = (s2, t2)" by force
  have b1: "bom_seen d1 = bom_seen d" using process_keeps_bom[of d a] p1 by simp
  have b2: "bom_seen d2 = bom_seen d" using process_keeps_bom[of d1 b] p2 b1 by simp
  have p2': "process (d1\<lparr>bom_seen := s1\<rparr>) b = (d2\<lparr>bom_seen := s1\<rparr>, o2)"
    using process_bom[where d=d1 and s=s1 and bs=b] p2 by simp
  show ?thesis
    by (simp add: decode_stream_def process_append serialize_append p1 p2 s1 s2 b1 b2 p2' Let_def)
qed

lemma decode_stream_Nil: "decode_stream d [] = (d, [])"
  by (simp add: decode_stream_def)

subsection \<open>Lines\<close>

lemma split_from_piece:
  "split_from p s = (p @ hd (split_from [] s)) # tl (split_from [] s)"
proof (induction s arbitrary: p)
  case Nil
  show ?case by simp
next
  case (Cons c s)
  show ?case
    using Cons.IH[of "p @ [c]"] Cons.IH[of "[c]"] by simp
qed

lemma split_lines_Nil [simp]: "split_lines [] = [[]]"
  by (simp add: split_lines_def)

lemma split_lines_Cons:
  "split_lines (c # cs) =
     (if c = 0x0A then [] # split_lines cs
      else (c # hd (split_lines cs)) # tl (split_lines cs))"
  using split_from_piece[of "[c]" cs] by (simp add: split_lines_def)

lemma split_lines_not_Nil [simp]: "split_lines s \<noteq> []"
  by (cases s) (simp_all add: split_lines_Cons)

lemma split_lines_append:
  "split_lines (a @ b) = butlast (split_lines a) @ split_lines (last (split_lines a) @ b)"
proof (induction a)
  case Nil
  show ?case by simp
next
  case (Cons c a)
  show ?case
  proof (cases "c = 0x0A")
    case True
    with Cons show ?thesis by (simp add: split_lines_Cons)
  next
    case False
    show ?thesis
    proof (cases "split_lines a")
      case Nil
      then show ?thesis using split_lines_not_Nil[of a] by simp
    next
      case (Cons l ls)
      note S = this
      show ?thesis
      proof (cases ls)
        case Nil
        with S False Cons.IH show ?thesis by (simp add: split_lines_Cons)
      next
        case (Cons l' ls')
        with S False Cons.IH show ?thesis by (simp add: split_lines_Cons)
      qed
    qed
  qed
qed

lemma last_split_lines_no_newline: "0x0A \<notin> set (last (split_lines s))"
proof (induction s)
  case Nil
  show ?case by simp
next
  case (Cons c s)
  show ?case
  proof (cases "split_lines s")
    case Nil
    then show ?thesis using split_lines_not_Nil[of s] by simp
  next
    case (Cons l ls)
    with Cons.IH show ?thesis by (cases ls) (auto simp: split_lines_Cons)
  qed
qed

lemma split_lines_no_newline: "0x0A \<notin> set s \<Longrightarrow> split_lines s = [s]"
  by (induction s) (auto simp: split_lines_Cons)

lemma take_lines_append:
  "take_lines bd (a @ b) =
     (fst (take_lines bd a) @ fst (take_lines (snd (take_lines bd a)) b),
      snd (take_lines (snd (take_lines bd a)) b))"
proof -
  obtain d1 t1 where d1: "decode_stream (snd bd) a = (d1, t1)" by force
  obtain d2 t2 where d2: "decode_stream d1 b = (d2, t2)" by force
  have ab: "decode_stream (snd bd) (a @ b) = (d2, t1 @ t2)"
    by (simp add: decode_stream_append d1 d2)
  have sp: "split_lines (fst bd @ t1 @ t2) =
      butlast (split_lines (fst bd @ t1)) @ split_lines (last (split_lines (fst bd @ t1)) @ t2)"
    using split_lines_append[of "fst bd @ t1" t2] by simp
  have t1: "take_lines bd a = (butlast (split_lines (fst bd @ t1)), (last (split_lines (fst bd @ t1)), d1))"
    by (simp add: take_lines_def d1 Let_def)
  show ?thesis
    by (simp add: t1) (simp add: take_lines_def ab d2 sp butlast_append Let_def)
qed

lemma take_lines_Nil: "0x0A \<notin> set (fst bd) \<Longrightarrow> take_lines bd [] = ([], bd)"
  by (simp add: take_lines_def decode_stream_Nil split_lines_no_newline)

lemma take_lines_buffer: "0x0A \<notin> set (fst (snd (take_lines bd c)))"
  by (simp add: take_lines_def last_split_lines_no_newline Let_def split: prod.splits)

lemma stream_lines_concat:
  "0x0A \<notin> set (fst bd) \<Longrightarrow>
   stream_lines bd cs = fst (take_lines bd (concat cs)) \<and> feed bd cs = snd (take_lines bd (concat cs))"
proof (induction cs arbitrary: bd)
  case Nil
  then show ?case by (simp add: take_lines_Nil)
next
  case (Cons c cs)
  from Cons.IH[OF take_lines_buffer[of bd c]] show ?case
    by (simp add: take_lines_append)
qed

lemma stream_lines_whole:
  "0x0A \<notin> set (fst bd) \<Longrightarrow> stream_lines bd cs = stream_lines bd [concat cs]"
  using stream_lines_concat[of bd cs] by simp

subsection \<open>Decoding ASCII\<close>

lemma process_ascii:
  "ascii bs \<Longrightarrow> bytes_needed d = 0 \<Longrightarrow> process d bs = (d, map unat bs)"
  by (induction bs) (simp_all add: ascii_def utf8_handler_def lead_def)

lemma unat_ascii: "(b::byte) \<le> 0x7F \<Longrightarrow> unat b < 0x80"
  by (simp add: word_le_nat_alt)

lemma serialize_ascii:
  "list_all (\<lambda>x. x < 0x80) xs \<Longrightarrow>
   serialize seen xs = (seen \<or> xs \<noteq> [], map of_nat xs)"
  by (induction xs arbitrary: seen) (simp_all add: utf16_def)

lemma decode_ascii: "ascii bs \<Longrightarrow> decode bs = map ucast bs"
proof -
  assume a: "ascii bs"
  then have l: "list_all (\<lambda>x. x < 0x80) (map unat bs)"
    by (simp add: ascii_def list_all_iff unat_ascii)
  have "process new_decoder bs = (new_decoder, map unat bs)"
    using a by (simp add: process_ascii new_decoder_def)
  then show ?thesis
    using serialize_ascii[OF l] by (simp add: decode_def new_decoder_def comp_def)
qed

lemma decode_stream_ascii:
  "ascii bs \<Longrightarrow> bytes_needed d = 0 \<Longrightarrow>
   decode_stream d bs = (d\<lparr>bom_seen := bom_seen d \<or> bs \<noteq> []\<rparr>, map ucast bs)"
proof -
  assume a: "ascii bs" and n: "bytes_needed d = 0"
  then have l: "list_all (\<lambda>x. x < 0x80) (map unat bs)"
    by (simp add: ascii_def list_all_iff unat_ascii)
  show ?thesis
    using serialize_ascii[OF l] by (simp add: decode_stream_def process_ascii[OF a n] comp_def)
qed

subsection \<open>The loop bodies touch only response and progress\<close>

lemma same_control_refl [simp]: "same_control a a"
  by (simp add: same_control_def)

lemma same_control_trans: "same_control a b \<Longrightarrow> same_control b c \<Longrightarrow> same_control a c"
  by (simp add: same_control_def)

lemma ndjson_line_control: "same_control (ndjson_line l st) st"
  by (simp add: ndjson_line_def same_control_def split: option.splits)

lemma sse_line_control: "same_control (sse_line l st) st"
  by (simp add: sse_line_def same_control_def split: option.splits)

lemma ndjson_lines_control: "same_control (foldl (\<lambda>s l. ndjson_line l s) st ls) st"
proof (induction ls arbitrary: st)
  case Nil
  show ?case by simp
next
  case (Cons l ls)
  show ?case
    using Cons.IH[of "ndjson_line l st"] ndjson_line_control[of l st]
    by (auto intro: same_control_trans)
qed

lemma sse_lines_control: "same_control (foldl (\<lambda>s l. sse_line l s) st ls) st"
proof (induction ls arbitrary: st)
  case Nil
  show ?case by simp
next
  case (Cons l ls)
  show ?case
    using Cons.IH[of "sse_line l st"] sse_line_control[of l st]
    by (auto intro: same_control_trans)
qed

lemma current_control: "same_control st' st \<Longrightarrow> current t st' = current t st"
  by (simp add: same_control_def current_def signal_aborted_def)

subsection \<open>A whole body read by a call that stays current\<close>

lemma deliver_stream:
  assumes "current t st" "pc t = AwaitReadStream (fst bd) (snd bd)"
  shows "deliver t st (body_reads cs) =
           (None, finally_clause t (foldl (\<lambda>s l. ndjson_line l s) st (stream_lines bd cs)))"
  using assms
proof (induction cs arbitrary: t st bd)
  case Nil
  then show ?case
    by (simp add: body_reads_def after_read_stream_def)
next
  case (Cons c cs)
  define st' where "st' = foldl (\<lambda>s l. ndjson_line l s) st (fst (take_lines bd c))"
  define t' where "t' = t\<lparr>pc := AwaitReadStream (fst (snd (take_lines bd c))) (snd (snd (take_lines bd c)))\<rparr>"
  have r: "resume t (Read (Inr (Chunk c))) st = (Some t', st')"
    using Cons.prems
    by (simp add: after_read_stream_def current_def st'_def t'_def split: prod.splits)
  have "same_control st' st" by (simp add: st'_def ndjson_lines_control)
  then have c': "current t' st'"
    using Cons.prems(1) by (simp add: current_def same_control_def signal_aborted_def t'_def)
  have p': "pc t' = AwaitReadStream (fst (snd (take_lines bd c))) (snd (snd (take_lines bd c)))"
    by (simp add: t'_def)
  have f: "finally_clause t' = finally_clause t"
    by (rule ext) (simp add: finally_clause_def t'_def)
  from Cons.IH[OF c' p'] r show ?case
    by (simp add: body_reads_def st'_def f)
qed

lemma deliver_sse:
  assumes "current t st" "pc t = AwaitReadSSE"
  shows "deliver t st (body_reads cs) =
           (None, finally_clause t (foldl (\<lambda>s l. sse_line l s) st (sse_lines cs)))"
  using assms
proof (induction cs arbitrary: st)
  case Nil
  then show ?case
    by (simp add: body_reads_def after_read_sse_def sse_lines_def)
next
  case (Cons c cs)
  define st' where "st' = foldl (\<lambda>s l. sse_line l s) st (split_lines (decode c))"
  have r: "resume t (Read (Inr (Chunk c))) st = (Some t, st')"
    using Cons.prems by (simp add: after_read_sse_def current_def st'_def)
  have "same_control st' st" by (simp add: st'_def sse_lines_control)
  then have c': "current t st'"
    using Cons.prems(1) by (simp add: current_def same_control_def signal_aborted_def)
  from Cons.IH[OF c' Cons.prems(2)] r show ?case
    by (simp add: body_reads_def st'_def sse_lines_def)
qed

subsection \<open>A malformed line\<close>

lemma ndjson_line_malformed: "JSON_parse l = None \<Longrightarrow> ndjson_line l st = st"
  by (simp add: ndjson_line_def)

lemma sse_line_malformed: "JSON_parse (drop 6 l) = None \<Longrightarrow> sse_line l st = st"
  by (simp add: sse_line_def)

lemma foldl_skip:
  "f bad = id \<Longrightarrow> foldl (\<lambda>s l. f l s) st (ls1 @ [bad] @ ls2) = foldl (\<lambda>s l. f l s) st (ls1 @ ls2)"
  by simp

subsection \<open>Supersession\<close>

lemma resume_superseded:
  "currentRequestId t \<noteq> requestIdRef st \<Longrightarrow> snd (resume t inp st) = st"
  by (cases inp)
     (auto simp: after_fetch_def after_json_def after_read_sse_def after_read_stream_def
        catch_clause_def finally_clause_def
        split: sum.splits pc.splits read_result.splits prod.splits)

lemma catch_clause_ref [simp]: "requestIdRef (catch_clause t e st) = requestIdRef st"
  by (simp add: catch_clause_def split: exn.splits)

lemma finally_clause_ref [simp]: "requestIdRef (finally_clause t st) = requestIdRef st"
  by (simp add: finally_clause_def)

lemma lines_ref [simp]:
  "requestIdRef (foldl (\<lambda>s l. ndjson_line l s) st ls) = requestIdRef st"
  "requestIdRef (foldl (\<lambda>s l. sse_line l s) st ls) = requestIdRef st"
  using ndjson_lines_control[of st ls] sse_lines_control[of st ls]
  by (simp_all add: same_control_def)

lemma resume_ref: "requestIdRef (snd (resume t inp st)) = requestIdRef st"
  by (cases inp)
     (auto simp: after_fetch_def after_json_def after_read_sse_def after_read_stream_def
        split: sum.splits pc.splits read_result.splits prod.splits ApiMode.splits)

lemma resume_id: "resume t inp st = (Some t', st') \<Longrightarrow> currentRequestId t' = currentRequestId t"
  by (cases inp)
     (auto simp: after_fetch_def after_json_def after_read_sse_def after_read_stream_def
        split: sum.splits pc.splits read_result.splits prod.splits ApiMode.splits if_splits)

lemma cleanupRequest_ref [simp]: "requestIdRef (cleanupRequest st) = requestIdRef st"
  by (simp add: cleanupRequest_def split: option.splits)

lemma numbered_step: "numbered sys \<Longrightarrow> numbered (step sys ev)"
proof (cases ev)
  case Click
  assume n: "numbered sys"
  show ?thesis
  proof (cases "loading (shared sys)")
    case True
    with n Click show ?thesis by (simp add: handleApiCall_def numbered_def)
  next
    case False
    with n Click show ?thesis
      by (auto simp: handleApiCall_def numbered_def Let_def nth_append less_Suc_eq)
  qed
next
  case Cancel
  assume "numbered sys"
  with Cancel show ?thesis by (simp add: numbered_def handleCancelRequest_def)
next
  case Unmount
  assume "numbered sys"
  with Unmount show ?thesis by (simp add: numbered_def)
next
  case (SetMode m)
  assume "numbered sys"
  with SetMode show ?thesis by (simp add: numbered_def)
next
  case (Settle i inp)
  assume n: "numbered sys"
  show ?thesis
  proof (cases "i < length (tasks sys)")
    case False
    with n Settle show ?thesis by simp
  next
    case True
    show ?thesis
    proof (cases "tasks sys ! i")
      case None
      with n Settle True show ?thesis by simp
    next
      case (Some t)
      obtain t' st' where r: "resume t inp (shared sys) = (t', st')" by force
      have ref: "requestIdRef st' = requestIdRef (shared sys)"
        using resume_ref[of t inp "shared sys"] r by simp
      have id: "\<And>u. t' = Some u \<Longrightarrow> currentRequestId u = currentRequestId t"
        using resume_id[of t inp "shared sys"] r by simp
      have s: "step sys ev = \<lparr>shared = st', tasks = (tasks sys)[i := t']\<rparr>"
        using Settle True Some r by simp
      show ?thesis
        unfolding s numbered_def
        using n ref id Some True by (auto simp: numbered_def nth_list_update)
    qed
  qed
qed

lemma numbered_run: "numbered (run evs)"
proof -
  have "numbered sys \<Longrightarrow> numbered (foldl step sys evs)" for sys
    by (induction evs arbitrary: sys) (simp_all add: numbered_step)
  moreover have "numbered start" by (simp add: numbered_def start_def initial_def)
  ultimately show ?thesis by (simp add: run_def)
qed

lemma settle_superseded:
  assumes "numbered sys" "i < j" "j < length (tasks sys)"
  shows "shared (step sys (Settle i inp)) = shared sys"
proof (cases "tasks sys ! i")
  case None
  with assms show ?thesis by simp
next
  case (Some t)
  from assms Some have "currentRequestId t = Suc i" "requestIdRef (shared sys) = length (tasks sys)"
    by (auto simp: numbered_def)
  with assms have "currentRequestId t \<noteq> requestIdRef (shared sys)" by simp
  from resume_superseded[OF this, of inp] Some assms show ?thesis
    by (auto split: prod.splits)
qed

lemmas json_eval = parse_value.simps parse_elements.simps parse_members.simps
  skip_ws_def json_ws_def parse_number_def dec_digit_def digits_value_def digit_value_def
  is_digit_def hex4_def JSON_parse_def Let_def str_def

lemmas decode_eval = decode_ascii ascii_def split_lines_def bytes_def str_def

lemma run_open_body:
  "run (open_body HeartbeatMode) = \<lparr>shared = busy HeartbeatMode, tasks = [Some (reader HeartbeatMode AwaitReadSSE)]\<rparr>"
  "run (open_body StreamMode) =
     \<lparr>shared = busy StreamMode, tasks = [Some (reader StreamMode (AwaitReadStream [] new_decoder))]\<rparr>"
  by (simp_all add: run_def open_body_def start_def initial_def handleApiCall_def
      cleanupRequest_def Let_def after_fetch_def signal_aborted_def ok_def ok_response_def
      reader_def busy_def)

lemma settle_all:
  "tasks sys = [Some t] \<Longrightarrow>
   shared (foldl step sys (map (Settle 0) ins)) = snd (deliver t (shared sys) ins)"
proof (induction ins arbitrary: sys t)
  case Nil
  show ?case by simp
next
  case (Cons i ins)
  obtain t' st' where r: "resume t i (shared sys) = (t', st')" by force
  have s: "step sys (Settle 0 i) = \<lparr>shared = st', tasks = [t']\<rparr>"
    using Cons.prems r by simp
  show ?case
  proof (cases t')
    case None
    have idle: "foldl step \<lparr>shared = st', tasks = [None]\<rparr> (map (Settle 0) js) = \<lparr>shared = st', tasks = [None]\<rparr>" for js
      by (induction js) simp_all
    from None r s idle show ?thesis by simp
  next
    case (Some u)
    with Cons.IH[of "\<lparr>shared = st', tasks = [t']\<rparr>" u] r s show ?thesis by simp
  qed
qed

lemma run_append: "run (evs @ evs') = foldl step (run evs) evs'"
  by (simp add: run_def)

lemma current_reader [simp]: "current (reader m p) (busy m)"
  by (simp add: current_def reader_def busy_def signal_aborted_def)

lemma finally_reader:
  "requestIdRef st = 1 \<Longrightarrow>
   finally_clause (reader m p) st = st\<lparr>loading := False, abortControllerRef := None\<rparr>"
  by (simp add: finally_clause_def reader_def)

subsection \<open>The frame of the completion event, whole and cut in two\<close>

lemma parse_complete:
  \<open>JSON_parse (str ''{"type":"complete"}'') = Some (JObj [(str ''type'', JStr (str ''complete''))])\<close>
  by (simp add: json_eval)

lemma parse_cut: \<open>JSON_parse (str ''{"type":"comp'') = None\<close>
  by (simp add: json_eval)

lemma sse_lines_whole:
  \<open>sse_lines [bytes ''data: {"type":"complete"}'' @ [0x0A, 0x0A]]
     = [str ''data: {"type":"complete"}'', [], []]\<close>
  by (simp add: sse_lines_def decode_eval)

lemma sse_lines_cut:
  \<open>sse_lines [bytes ''data: {"type":"comp'', bytes ''lete"}'' @ [0x0A, 0x0A]]
     = [str ''data: {"type":"comp'', str ''lete"}'', [], []]\<close>
  by (simp add: sse_lines_def decode_eval)

lemma drop_data:
  \<open>take 6 (str ''data: {"type":"complete"}'') = str ''data: ''\<close>
  \<open>drop 6 (str ''data: {"type":"complete"}'') = str ''{"type":"complete"}''\<close>
  \<open>take 6 (str ''data: {"type":"comp'') = str ''data: ''\<close>
  \<open>drop 6 (str ''data: {"type":"comp'') = str ''{"type":"comp''\<close>
  \<open>take 6 (str ''lete"}'') \<noteq> str ''data: ''\<close>
  \<open>[] \<noteq> str ''data: ''\<close>
  by (simp_all add: str_def)

lemma sse_line_complete:
  \<open>sse_line (str ''data: {"type":"complete"}'') st
     = st\<lparr>response := JObj [(str ''type'', JStr (str ''complete''))]\<rparr>\<close>
  by (simp add: sse_line_def drop_data parse_complete)

lemma sse_line_cut:
  \<open>sse_line (str ''data: {"type":"comp'') st = st\<close>
  \<open>sse_line (str ''lete"}'') st = st\<close>
  \<open>sse_line [] st = st\<close>
  by (simp_all add: sse_line_def drop_data parse_cut)

section \<open>The client: results\<close>

text \<open>
  C1 (refuted on the code). \<open>handleSSEResponse\<close> keeps no text from one read to the
  next, as \<open>handleStreamResponse\<close> does with its buffer. The frame of the completion
  event, read in one chunk, sets \<open>response\<close>; the same bytes read in two chunks, the cut
  falling inside the frame, leave \<open>response\<close> at \<open>null\<close>: neither half is a line that
  parses.
\<close>

theorem sse_frame_cut_across_reads_is_lost:
  \<open>shared (run (open_body HeartbeatMode
       @ map (Settle 0) (body_reads [bytes ''data: {"type":"complete"}'' @ [0x0A, 0x0A]])))
     = (busy HeartbeatMode)
         \<lparr>loading := False, abortControllerRef := None,
          response := JObj [(str ''type'', JStr (str ''complete''))]\<rparr>
   \<and> shared (run (open_body HeartbeatMode
       @ map (Settle 0)
           (body_reads [bytes ''data: {"type":"comp'', bytes ''lete"}'' @ [0x0A, 0x0A]])))
     = (busy HeartbeatMode)\<lparr>loading := False, abortControllerRef := None\<rparr>
   \<and> bytes ''data: {"type":"comp'' @ bytes ''lete"}'' @ [0x0A, 0x0A]
     = bytes ''data: {"type":"complete"}'' @ [0x0A, 0x0A]\<close>
proof -
  have t: "tasks (run (open_body HeartbeatMode)) = [Some (reader HeartbeatMode AwaitReadSSE)]"
    and s: "shared (run (open_body HeartbeatMode)) = busy HeartbeatMode"
    by (simp_all add: run_open_body)
  have p: "pc (reader HeartbeatMode AwaitReadSSE) = AwaitReadSSE" by (simp add: reader_def)
  have r: "requestIdRef (busy HeartbeatMode) = 1" by (simp add: busy_def)
  show ?thesis
    unfolding run_append settle_all[OF t] s deliver_sse[OF current_reader p]
      sse_lines_whole sse_lines_cut
    by (simp add: sse_line_complete sse_line_cut finally_reader r bytes_def)
qed

lemma lines_error [simp]:
  "error (foldl (\<lambda>s l. ndjson_line l s) st ls) = error st"
  "error (foldl (\<lambda>s l. sse_line l s) st ls) = error st"
  using ndjson_lines_control[of st ls] sse_lines_control[of st ls]
  by (simp_all add: same_control_def)

lemma finally_clause_error [simp]: "error (finally_clause t st) = error st"
  by (simp add: finally_clause_def)

text \<open>
  C2. A call of \<open>handleStreamResponse\<close> that is neither superseded nor aborted reads a
  body in any chunks: the lines it hands to its loop body, the units \<open>JSON.parse\<close> makes
  of them, and the state of the component when the body has ended are those of reading
  all the bytes in one chunk.
\<close>

theorem ndjson_chunking_invariant:
  assumes "currentRequestId t = requestIdRef st" "\<not> signal_aborted st (abortController t)"
    and "pc t = AwaitReadStream [] new_decoder"
  shows "stream_lines ([], new_decoder) cs = stream_lines ([], new_decoder) [concat cs]
       \<and> ndjson_units (stream_lines ([], new_decoder) cs)
           = ndjson_units (stream_lines ([], new_decoder) [concat cs])
       \<and> deliver t st (body_reads cs)
           = (None, finally_clause t
                (foldl (\<lambda>s l. ndjson_line l s) st (stream_lines ([], new_decoder) [concat cs])))
       \<and> deliver t st (body_reads cs) = deliver t st (body_reads [concat cs])"
proof -
  have c: "current t st" using assms by (simp add: current_def)
  have p: "pc t = AwaitReadStream (fst ([], new_decoder)) (snd ([], new_decoder))"
    using assms by simp
  have l: "stream_lines ([], new_decoder) cs = stream_lines ([], new_decoder) [concat cs]"
    by (rule stream_lines_whole) simp
  show ?thesis
    using deliver_stream[OF c p, of cs] deliver_stream[OF c p, of "[concat cs]"] l by simp
qed

lemma parse_progress_40:
  \<open>JSON_parse (str ''{"status":"progress","progress":40}'')
     = Some (JObj [(str ''status'', JStr (str ''progress'')), (str ''progress'', JNum 40)])\<close>
  by (simp add: json_eval)

lemma stream_lines_40:
  \<open>stream_lines ([], new_decoder)
      [bytes ''{"status":"pro'' @ (bytes ''gress","progress":40}'' @ [0x0A])]
     = [str ''{"status":"progress","progress":40}'']\<close>
  by (simp add: take_lines_def decode_stream_ascii ascii_def new_decoder_def bytes_def str_def
      split_lines_def)

lemma ndjson_line_40:
  \<open>ndjson_line (str ''{"status":"progress","progress":40}'') st = st\<lparr>progress := JNum 40\<rparr>\<close>
proof -
  have t: \<open>trim (str ''{"status":"progress","progress":40}'') \<noteq> []\<close>
    by (simp add: trim_def str_def StrWhiteSpaceChar_def)
  show ?thesis
    by (simp add: ndjson_line_def t parse_progress_40 or_zero_def) (simp add: str_def)
qed

theorem ndjson_chunking_invariant_witness:
  \<open>currentRequestId (reader StreamMode (AwaitReadStream [] new_decoder)) = requestIdRef (busy StreamMode)
   \<and> \<not> signal_aborted (busy StreamMode) (abortController (reader StreamMode (AwaitReadStream [] new_decoder)))
   \<and> pc (reader StreamMode (AwaitReadStream [] new_decoder)) = AwaitReadStream [] new_decoder
   \<and> stream_lines ([], new_decoder) [bytes ''{"status":"pro'', bytes ''gress","progress":40}'' @ [0x0A]]
       = [str ''{"status":"progress","progress":40}'']
   \<and> deliver (reader StreamMode (AwaitReadStream [] new_decoder)) (busy StreamMode)
         (body_reads [bytes ''{"status":"pro'', bytes ''gress","progress":40}'' @ [0x0A]])
       = (None, (busy StreamMode)\<lparr>loading := False, abortControllerRef := None, progress := JNum 40\<rparr>)\<close>
proof -
  have h: \<open>currentRequestId (reader StreamMode (AwaitReadStream [] new_decoder)) = requestIdRef (busy StreamMode)\<close>
    \<open>\<not> signal_aborted (busy StreamMode) (abortController (reader StreamMode (AwaitReadStream [] new_decoder)))\<close>
    \<open>pc (reader StreamMode (AwaitReadStream [] new_decoder)) = AwaitReadStream [] new_decoder\<close>
    by (simp_all add: reader_def busy_def signal_aborted_def)
  have r: "requestIdRef ((busy StreamMode)\<lparr>progress := JNum 40\<rparr>) = 1" by (simp add: busy_def)
  show ?thesis
    using h ndjson_chunking_invariant[OF h,
        of \<open>[bytes ''{"status":"pro'', bytes ''gress","progress":40}'' @ [0x0A]]\<close>]
    by (simp add: stream_lines_40 ndjson_line_40 finally_reader r del: stream_lines.simps)
qed

text \<open>
  C3. Starting a request increments the identity and gives the new value to the new call.
  A call whose identity is not the current one changes nothing of the state of the
  component when a promise it waits for settles, whatever it settles with. Hence, in every
  run of the component, once a later call has been started, nothing that arrives for an
  earlier call changes the state.
\<close>

theorem superseded_response_is_discarded:
  "(\<not> loading st0 \<longrightarrow>
      (\<exists>t0 st1. handleApiCall st0 = (Some t0, st1) \<and> requestIdRef st1 = Suc (requestIdRef st0)
         \<and> currentRequestId t0 = requestIdRef st1))
   \<and> (currentRequestId t \<noteq> requestIdRef st \<longrightarrow> snd (resume t inp st) = st)
   \<and> (i < j \<and> j < length (tasks (run evs)) \<longrightarrow>
        shared (step (run evs) (Settle i inp)) = shared (run evs))"
proof (intro conjI impI)
  assume "\<not> loading st0"
  then show "\<exists>t0 st1. handleApiCall st0 = (Some t0, st1) \<and> requestIdRef st1 = Suc (requestIdRef st0)
         \<and> currentRequestId t0 = requestIdRef st1"
    by (simp add: handleApiCall_def Let_def)
next
  assume "currentRequestId t \<noteq> requestIdRef st"
  then show "snd (resume t inp st) = st" by (rule resume_superseded)
next
  assume "i < j \<and> j < length (tasks (run evs))"
  then show "shared (step (run evs) (Settle i inp)) = shared (run evs)"
    using settle_superseded[OF numbered_run, of i j evs inp] by simp
qed

lemma run_second_request: "run [Click, Cancel, Click] = second_request"
  by (simp add: run_def start_def initial_def handleApiCall_def cleanupRequest_def
      handleCancelRequest_def Let_def reader_def second_request_def)

theorem superseded_response_is_discarded_witness:
  "\<not> loading initial
   \<and> (\<exists>t0 st1. handleApiCall initial = (Some t0, st1) \<and> requestIdRef st1 = Suc (requestIdRef initial)
         \<and> currentRequestId t0 = requestIdRef st1)
   \<and> currentRequestId (reader SignalMode AwaitFetch) \<noteq> requestIdRef (shared second_request)
   \<and> snd (resume (reader SignalMode AwaitFetch) (Fetched (Inr ok_response)) (shared second_request))
       = shared second_request
   \<and> (0::nat) < 1 \<and> 1 < length (tasks (run [Click, Cancel, Click]))
   \<and> shared (step (run [Click, Cancel, Click]) (Settle 0 (Fetched (Inr ok_response))))
       = shared (run [Click, Cancel, Click])"
proof -
  have a: "\<not> loading initial" by (simp add: initial_def)
  have b: "currentRequestId (reader SignalMode AwaitFetch) \<noteq> requestIdRef (shared second_request)"
    by (simp add: reader_def second_request_def)
  have c: "(0::nat) < 1 \<and> 1 < length (tasks (run [Click, Cancel, Click]))"
    by (simp add: run_second_request second_request_def)
  show ?thesis
    using a b c
      superseded_response_is_discarded[where ?st0.0 = initial
        and t = "reader SignalMode AwaitFetch" and st = "shared second_request"
        and inp = "Fetched (Inr ok_response)" and i = 0 and j = 1
        and evs = "[Click, Cancel, Click]"]
    by simp
qed

text \<open>
  What does hold of a malformed line. A line that \<open>JSON.parse\<close> rejects leaves the state
  of the component as it is, in the loop body of either parser. When such a line stands
  among the lines the reads of a current call yield, the state of the component at the end
  is the one the other lines give, handled in their order, and \<open>error\<close> is what it was
  before. This speaks of the lines each read yields, not of the units of the stream: a
  frame the SSE parser receives in two reads is not among them.
\<close>

lemma malformed_line_is_skipped:
  assumes "JSON_parse bad = None"
  shows "ndjson_line bad st = st
       \<and> sse_line (str ''data: '' @ bad) st = st
       \<and> (currentRequestId t = requestIdRef st \<and> \<not> signal_aborted st (abortController t)
            \<and> pc t = AwaitReadStream [] new_decoder
            \<and> stream_lines ([], new_decoder) cs = before @ [bad] @ after
          \<longrightarrow> deliver t st (body_reads cs)
                = (None, finally_clause t (foldl (\<lambda>s l. ndjson_line l s) st (before @ after)))
              \<and> error (snd (deliver t st (body_reads cs))) = error st)
       \<and> (currentRequestId t = requestIdRef st \<and> \<not> signal_aborted st (abortController t)
            \<and> pc t = AwaitReadSSE
            \<and> sse_lines cs = before @ [str ''data: '' @ bad] @ after
          \<longrightarrow> deliver t st (body_reads cs)
                = (None, finally_clause t (foldl (\<lambda>s l. sse_line l s) st (before @ after)))
              \<and> error (snd (deliver t st (body_reads cs))) = error st)"
proof -
  have d: "drop 6 (str ''data: '' @ bad) = bad" by (simp add: str_def)
  have n: "ndjson_line bad s = s" for s
    using assms by (rule ndjson_line_malformed)
  have e: "sse_line (str ''data: '' @ bad) s = s" for s
    by (rule sse_line_malformed) (simp only: d assms)
  show ?thesis
  proof (intro conjI impI)
    show "ndjson_line bad st = st" by (rule n)
    show "sse_line (str ''data: '' @ bad) st = st" by (rule e)
  next
    assume h: "currentRequestId t = requestIdRef st \<and> \<not> signal_aborted st (abortController t)
            \<and> pc t = AwaitReadStream [] new_decoder
            \<and> stream_lines ([], new_decoder) cs = before @ [bad] @ after"
    then have c: "current t st" by (simp add: current_def)
    have p: "pc t = AwaitReadStream (fst ([], new_decoder)) (snd ([], new_decoder))"
      using h by simp
    show g: "deliver t st (body_reads cs)
                = (None, finally_clause t (foldl (\<lambda>s l. ndjson_line l s) st (before @ after)))"
      using deliver_stream[OF c p, of cs] h by (simp add: n)
    show "error (snd (deliver t st (body_reads cs))) = error st"
      by (simp add: g)
  next
    assume h: "currentRequestId t = requestIdRef st \<and> \<not> signal_aborted st (abortController t)
            \<and> pc t = AwaitReadSSE
            \<and> sse_lines cs = before @ [str ''data: '' @ bad] @ after"
    then have c: "current t st" by (simp add: current_def)
    have p: "pc t = AwaitReadSSE" using h by simp
    show g: "deliver t st (body_reads cs)
                = (None, finally_clause t (foldl (\<lambda>s l. sse_line l s) st (before @ after)))"
      using deliver_sse[OF c p, of cs] h by (simp add: e)
    show "error (snd (deliver t st (body_reads cs))) = error st"
      by (simp add: g)
  qed
qed

lemma parse_junk: \<open>JSON_parse (str ''{junk'') = None\<close>
  by (simp add: json_eval)

lemma parse_progress_10_20:
  \<open>JSON_parse (str ''{"status":"progress","progress":10}'')
     = Some (JObj [(str ''status'', JStr (str ''progress'')), (str ''progress'', JNum 10)])\<close>
  \<open>JSON_parse (str ''{"status":"progress","progress":20}'')
     = Some (JObj [(str ''status'', JStr (str ''progress'')), (str ''progress'', JNum 20)])\<close>
  by (simp_all add: json_eval)

lemma ndjson_line_10_20:
  \<open>ndjson_line (str ''{"status":"progress","progress":10}'') st = st\<lparr>progress := JNum 10\<rparr>\<close>
  \<open>ndjson_line (str ''{"status":"progress","progress":20}'') st = st\<lparr>progress := JNum 20\<rparr>\<close>
proof -
  have t: \<open>trim (str ''{"status":"progress","progress":10}'') \<noteq> []\<close>
    \<open>trim (str ''{"status":"progress","progress":20}'') \<noteq> []\<close>
    by (simp_all add: trim_def str_def StrWhiteSpaceChar_def)
  show \<open>ndjson_line (str ''{"status":"progress","progress":10}'') st = st\<lparr>progress := JNum 10\<rparr>\<close>
    by (simp add: ndjson_line_def t parse_progress_10_20 or_zero_def) (simp add: str_def)
  show \<open>ndjson_line (str ''{"status":"progress","progress":20}'') st = st\<lparr>progress := JNum 20\<rparr>\<close>
    by (simp add: ndjson_line_def t parse_progress_10_20 or_zero_def) (simp add: str_def)
qed

lemma stream_lines_injected:
  \<open>stream_lines ([], new_decoder)
      [bytes ''{"status":"progress","progress":10}'' @ [0x0A] @ bytes ''{junk'' @ [0x0A]
       @ bytes ''{"status":"progress","progress":20}'' @ [0x0A]]
     = [str ''{"status":"progress","progress":10}''] @ [str ''{junk'']
       @ [str ''{"status":"progress","progress":20}'']\<close>
  by (simp add: take_lines_def decode_stream_ascii ascii_def new_decoder_def bytes_def str_def
      split_lines_def)

lemma sse_lines_injected:
  \<open>sse_lines [bytes ''data: {junk'' @ [0x0A, 0x0A] @ bytes ''data: {"type":"complete"}'' @ [0x0A, 0x0A]]
     = [] @ [str ''data: '' @ str ''{junk''] @ [[], str ''data: {"type":"complete"}'', [], []]\<close>
  by (simp add: sse_lines_def decode_eval)

lemma malformed_line_is_skipped_example:
  \<open>JSON_parse (str ''{junk'') = None
   \<and> ndjson_line (str ''{junk'') (busy StreamMode) = busy StreamMode
   \<and> sse_line (str ''data: '' @ str ''{junk'') (busy HeartbeatMode) = busy HeartbeatMode
   \<and> stream_lines ([], new_decoder)
        [bytes ''{"status":"progress","progress":10}'' @ [0x0A] @ bytes ''{junk'' @ [0x0A]
         @ bytes ''{"status":"progress","progress":20}'' @ [0x0A]]
       = [str ''{"status":"progress","progress":10}''] @ [str ''{junk'']
         @ [str ''{"status":"progress","progress":20}'']
   \<and> deliver (reader StreamMode (AwaitReadStream [] new_decoder)) (busy StreamMode)
        (body_reads
          [bytes ''{"status":"progress","progress":10}'' @ [0x0A] @ bytes ''{junk'' @ [0x0A]
           @ bytes ''{"status":"progress","progress":20}'' @ [0x0A]])
       = (None, (busy StreamMode)\<lparr>loading := False, abortControllerRef := None, progress := JNum 20\<rparr>)
   \<and> sse_lines [bytes ''data: {junk'' @ [0x0A, 0x0A] @ bytes ''data: {"type":"complete"}'' @ [0x0A, 0x0A]]
       = [] @ [str ''data: '' @ str ''{junk''] @ [[], str ''data: {"type":"complete"}'', [], []]
   \<and> deliver (reader HeartbeatMode AwaitReadSSE) (busy HeartbeatMode)
        (body_reads
          [bytes ''data: {junk'' @ [0x0A, 0x0A] @ bytes ''data: {"type":"complete"}'' @ [0x0A, 0x0A]])
       = (None, (busy HeartbeatMode)
           \<lparr>loading := False, abortControllerRef := None,
            response := JObj [(str ''type'', JStr (str ''complete''))]\<rparr>)\<close>
proof -
  note n = malformed_line_is_skipped[OF parse_junk,
      where st = "busy StreamMode" and t = "reader StreamMode (AwaitReadStream [] new_decoder)"
        and cs = \<open>[bytes ''{"status":"progress","progress":10}'' @ [0x0A] @ bytes ''{junk'' @ [0x0A]
           @ bytes ''{"status":"progress","progress":20}'' @ [0x0A]]\<close>
        and before = \<open>[str ''{"status":"progress","progress":10}'']\<close>
        and after = \<open>[str ''{"status":"progress","progress":20}'']\<close>]
  note e = malformed_line_is_skipped[OF parse_junk,
      where st = "busy HeartbeatMode" and t = "reader HeartbeatMode AwaitReadSSE"
        and cs = \<open>[bytes ''data: {junk'' @ [0x0A, 0x0A] @ bytes ''data: {"type":"complete"}'' @ [0x0A, 0x0A]]\<close>
        and before = "[]"
        and after = \<open>[[], str ''data: {"type":"complete"}'', [], []]\<close>]
  have cur: "currentRequestId (reader m p) = requestIdRef (busy m)"
    "\<not> signal_aborted (busy m) (abortController (reader m p))" "pc (reader m p) = p" for m p
    by (simp_all add: reader_def busy_def signal_aborted_def)
  have r: "requestIdRef ((busy m)\<lparr>progress := x\<rparr>) = 1" "requestIdRef ((busy m)\<lparr>response := x\<rparr>) = 1" for m x
    by (simp_all add: busy_def)
  have 1: \<open>deliver (reader StreamMode (AwaitReadStream [] new_decoder)) (busy StreamMode)
        (body_reads
          [bytes ''{"status":"progress","progress":10}'' @ [0x0A] @ bytes ''{junk'' @ [0x0A]
           @ bytes ''{"status":"progress","progress":20}'' @ [0x0A]])
       = (None, (busy StreamMode)\<lparr>loading := False, abortControllerRef := None, progress := JNum 20\<rparr>)\<close>
    using n cur stream_lines_injected
    by (simp add: ndjson_line_10_20 finally_reader r del: stream_lines.simps)
  have 2: \<open>deliver (reader HeartbeatMode AwaitReadSSE) (busy HeartbeatMode)
        (body_reads
          [bytes ''data: {junk'' @ [0x0A, 0x0A] @ bytes ''data: {"type":"complete"}'' @ [0x0A, 0x0A]])
       = (None, (busy HeartbeatMode)
           \<lparr>loading := False, abortControllerRef := None,
            response := JObj [(str ''type'', JStr (str ''complete''))]\<rparr>)\<close>
    using e cur sse_lines_injected
    by (simp add: sse_line_complete sse_line_cut finally_reader r)
  from n e have 3: \<open>ndjson_line (str ''{junk'') (busy StreamMode) = busy StreamMode\<close>
    \<open>sse_line (str ''data: '' @ str ''{junk'') (busy HeartbeatMode) = busy HeartbeatMode\<close>
    by blast+
  show ?thesis
    using parse_junk 1 2 3 stream_lines_injected sse_lines_injected by blast
qed

lemma sse_lines_injected_cut:
  \<open>sse_lines [bytes ''data: {junk'' @ [0x0A, 0x0A] @ bytes ''data: {"type":"comp'',
              bytes ''lete"}'' @ [0x0A, 0x0A]]
     = [str ''data: {junk'', [], str ''data: {"type":"comp'', str ''lete"}'', [], []]\<close>
  by (simp add: sse_lines_def decode_eval)

lemma sse_lines_injected_whole:
  \<open>sse_lines [bytes ''data: {junk'' @ [0x0A, 0x0A] @ bytes ''data: {"type":"complete"}''
               @ [0x0A, 0x0A]]
     = [str ''data: {junk'', [], str ''data: {"type":"complete"}'', [], []]\<close>
  by (simp add: sse_lines_def decode_eval)

lemma sse_line_junk: \<open>sse_line (str ''data: {junk'') st = st\<close>
proof -
  have \<open>drop 6 (str ''data: {junk'') = str ''{junk''\<close> by (simp add: str_def)
  then show ?thesis by (simp add: sse_line_def parse_junk)
qed

text \<open>
  C8 (refuted on the code). In the SSE parser a malformed frame is skipped, but a
  well-formed unit that follows it in the same stream is not always parsed and applied.
  The stream holds the malformed frame \<open>data: {junk\<close> and then the frame of the completion
  event. Read in one chunk, it sets \<open>response\<close>. Read in two chunks, the cut falling inside
  the completion frame, it leaves \<open>response\<close> at \<open>null\<close>: \<open>handleSSEResponse\<close> keeps no
  text from one read to the next, so neither half of the frame is a line that parses.
\<close>

theorem unit_after_malformed_frame_is_lost:
  \<open>JSON_parse (str ''{junk'') = None
   \<and> JSON_parse (str ''{"type":"complete"}'')
       = Some (JObj [(str ''type'', JStr (str ''complete''))])
   \<and> shared (run (open_body HeartbeatMode
       @ map (Settle 0)
           (body_reads [bytes ''data: {junk'' @ [0x0A, 0x0A] @ bytes ''data: {"type":"complete"}''
                         @ [0x0A, 0x0A]])))
     = (busy HeartbeatMode)
         \<lparr>loading := False, abortControllerRef := None,
          response := JObj [(str ''type'', JStr (str ''complete''))]\<rparr>
   \<and> shared (run (open_body HeartbeatMode
       @ map (Settle 0)
           (body_reads [bytes ''data: {junk'' @ [0x0A, 0x0A] @ bytes ''data: {"type":"comp'',
                        bytes ''lete"}'' @ [0x0A, 0x0A]])))
     = (busy HeartbeatMode)\<lparr>loading := False, abortControllerRef := None\<rparr>
   \<and> (bytes ''data: {junk'' @ [0x0A, 0x0A] @ bytes ''data: {"type":"comp'')
       @ (bytes ''lete"}'' @ [0x0A, 0x0A])
     = bytes ''data: {junk'' @ [0x0A, 0x0A] @ bytes ''data: {"type":"complete"}'' @ [0x0A, 0x0A]\<close>
proof -
  have t: "tasks (run (open_body HeartbeatMode)) = [Some (reader HeartbeatMode AwaitReadSSE)]"
    and s: "shared (run (open_body HeartbeatMode)) = busy HeartbeatMode"
    by (simp_all add: run_open_body)
  have p: "pc (reader HeartbeatMode AwaitReadSSE) = AwaitReadSSE" by (simp add: reader_def)
  have r: "requestIdRef (busy HeartbeatMode) = 1" by (simp add: busy_def)
  show ?thesis
    unfolding run_append settle_all[OF t] s deliver_sse[OF current_reader p]
      sse_lines_injected_whole sse_lines_injected_cut
    by (simp add: parse_junk parse_complete sse_line_junk sse_line_complete sse_line_cut
        finally_reader r bytes_def)
qed
end
